theory Spec2Isabelle
  imports Main "HOL-Library.AList" "HOL-Library.Multiset" "HOL-Library.Sublist" "HOL-Library.Word"
begin

section \<open>Data model\<close>

text \<open>
  One provider-specific key/value annotation of an endpoint
  (\<^verbatim>\<open>endpoint.ProviderSpecificProperty\<close>).
\<close>

record ProviderSpecificProperty =
  Name :: string
  Value :: string

text \<open>
  The controller-facing endpoint (\<^verbatim>\<open>endpoint.Endpoint\<close>): DNS name, ordered targets,
  record type, TTL, labels and provider-specific annotations. The Go code handles
  endpoints through non-nil pointers; the model handles them as values. The TTL is Go's
  \<^verbatim>\<open>int64\<close>, kept as an integer.
\<close>

record Endpoint =
  DNSName :: string
  Targets :: "string list"
  RecordType :: string
  RecordTTL :: int
  Labels :: "(string \<times> string) list"
  ProviderSpecific :: "ProviderSpecificProperty list"

text \<open>
  One appliance row (\<^verbatim>\<open>eip.DataInnerDnsRrData\<close>), as read through its getters
  \<^verbatim>\<open>GetRrTtl\<close>, \<^verbatim>\<open>GetRrFullName\<close>, \<^verbatim>\<open>GetRrType\<close> and \<^verbatim>\<open>GetRrAllValue\<close>; the fields carry
  the row's JSON names.
\<close>

record DataInnerDnsRrData =
  rr_ttl :: string
  rr_full_name :: string
  rr_type :: string
  rr_all_value :: string

text \<open>The fields of \<^verbatim>\<open>EfficientIPConfig\<close> that the modelled functions read.\<close>

record EfficientIPConfig =
  DnsSmart :: string
  DnsView :: string
  DryRun :: bool
  CreatePTR :: bool
  DefaultTTL :: int

text \<open>The four endpoint sets of \<^verbatim>\<open>plan.Changes\<close>.\<close>

record Changes =
  Create :: "Endpoint list"
  UpdateOld :: "Endpoint list"
  UpdateNew :: "Endpoint list"
  Delete :: "Endpoint list"

text \<open>
  The body of a create request (\<^verbatim>\<open>eip.DnsRrAddInput\<close>); its TTL is the endpoint's TTL
  converted to \<^verbatim>\<open>int32\<close>, a 32-bit word that \<open>sint\<close> reads as the signed value.
\<close>

record DnsRrAddInput =
  ServerName :: string
  ViewName :: string
  RrName :: string
  RrType :: string
  RrTtl :: "32 word"
  RrValue1 :: string

text \<open>
  An outbound appliance call: a create request with its body, or a delete request with
  name, type and value.
\<close>

datatype DnsCall =
    DnsRrAdd DnsRrAddInput
  | DnsRrDelete string string string

text \<open>
  What \<^verbatim>\<open>Execute()\<close> gives back: a transport error (\<^verbatim>\<open>err != nil\<close>) or a response with
  its HTTP status code.
\<close>

datatype ApiResult =
    TransportError string
  | StatusCode int

text \<open>
  The appliance's log: every call issued so far with its result, oldest first. The
  appliance itself is a function from the log and the next call to that call's result,
  so its answers may depend on everything requested before. The functions below take the
  log and return it extended by the calls they issue; what they write with \<^verbatim>\<open>logrus\<close> is
  not modelled.
\<close>

type_synonym trace = "(DnsCall \<times> ApiResult) list"

record EfficientIPAPI =
  client :: "trace \<Rightarrow> DnsCall \<Rightarrow> ApiResult"
  dnsName :: string
  dnsView :: string

text \<open>
  The provider with the fields the modelled functions read. Its field \<^verbatim>\<open>client\<close>, the
  \<^verbatim>\<open>EfficientIPClient\<close> interface that \<^verbatim>\<open>NewEfficientIPProvider\<close> fills with an
  \<^verbatim>\<open>EfficientIPAPI\<close>, is the field \<open>api\<close> here.
\<close>

record Provider =
  api :: EfficientIPAPI
  config :: EfficientIPConfig

text \<open>
  The errors the modelled functions build with \<^verbatim>\<open>fmt.Errorf\<close>, one constructor per
  format string; a wrapped error (\<^verbatim>\<open>%w\<close>) is an argument. \<open>NoTargetsProvided\<close> is the
  error the specification calls \<^verbatim>\<open>InvalidInput\<close>.
\<close>

datatype error =
    NoTargetsProvided string
  | CreateRequestFailed string string string
  | CreateStatus int string
  | DeleteRequestFailed string string string
  | DeleteStatus int string
  | FailedToCreateRecord error
  | FailedToDeleteRecord error
  | FailedToCreateEndpoint string error
  | FailedToDeleteEndpoint string error

datatype NumError = ErrSyntax | ErrRange

section \<open>Library functions the code calls\<close>

text \<open>
  Modelled from the spec: \<^verbatim>\<open>strconv.Atoi\<close> is Go's standard library and not part of
  the repository's files. The specification only says that a TTL string either parses as
  an integer or does not; the model accepts an optional sign followed by one or more
  decimal digits whose value fits Go's 64-bit \<^verbatim>\<open>int\<close>.
\<close>

fun digits_value :: "string \<Rightarrow> nat \<Rightarrow> nat option" where
  "digits_value [] n = Some n"
| "digits_value (ch # s) n =
     (if 48 \<le> (of_char ch :: nat) \<and> (of_char ch :: nat) \<le> 57
      then digits_value s (n * 10 + (of_char ch - 48))
      else None)"

definition Atoi :: "string \<Rightarrow> NumError + int" where
  "Atoi s =
     (case s of
        [] \<Rightarrow> Inl ErrSyntax
      | ch # rest \<Rightarrow>
          (let neg = (ch = CHR ''-'');
               ds = (if ch = CHR ''-'' \<or> ch = CHR ''+'' then rest else s)
           in if ds = [] then Inl ErrSyntax
              else (case digits_value ds 0 of
                      None \<Rightarrow> Inl ErrSyntax
                    | Some n \<Rightarrow>
                        (let v = (if neg then - int n else int n)
                         in if v < - (2 ^ 63) \<or> 2 ^ 63 \<le> v then Inl ErrRange else Inr v))))"

text \<open>The record type constant \<^verbatim>\<open>endpoint.RecordTypeA\<close>.\<close>

definition RecordTypeA :: string where
  "RecordTypeA = ''A''"

text \<open>
  Modelled from the spec: \<^verbatim>\<open>endpoint.NewEndpointWithTTL\<close> belongs to the external-dns
  library and is not part of the repository's files. Following the specification
  ("create a new Endpoint with a single-element targets list"), the model stores name,
  type, TTL and the one target as given, with no labels and no annotations.
\<close>

definition NewEndpointWithTTL :: "string \<Rightarrow> string \<Rightarrow> int \<Rightarrow> string \<Rightarrow> Endpoint" where
  "NewEndpointWithTTL name recordType ttl target =
     \<lparr>DNSName = name, Targets = [target], RecordType = recordType, RecordTTL = ttl,
      Labels = [], ProviderSpecific = []\<rparr>"

text \<open>
  Modelled from the spec: \<^verbatim>\<open>TTL.IsConfigured\<close> belongs to the external-dns library and
  is not part of the repository's files. The specification speaks of a TTL being
  "explicitly configured"; the model takes that as a positive TTL.
\<close>

definition IsConfigured :: "int \<Rightarrow> bool" where
  "IsConfigured ttl \<longleftrightarrow> 0 < ttl"

text \<open>
  Modelled from the spec: \<^verbatim>\<open>Endpoint.WithProviderSpecific\<close> belongs to the external-dns
  library and is not part of the repository's files. The code calls it only after its own
  search found no annotation of that name, where "attach" means one new entry at the end.
\<close>

definition WithProviderSpecific :: "Endpoint \<Rightarrow> string \<Rightarrow> string \<Rightarrow> Endpoint" where
  "WithProviderSpecific ep key val =
     ep\<lparr>ProviderSpecific := ProviderSpecific ep @ [\<lparr>Name = key, Value = val\<rparr>]\<rparr>"

section \<open>The appliance client: fan-out of one endpoint into one call per target\<close>

text \<open>A call failed when the transport failed or the status code is 400 or above.\<close>

definition call_failed :: "ApiResult \<Rightarrow> bool" where
  "call_failed r = (case r of TransportError msg \<Rightarrow> True | StatusCode status \<Rightarrow> 400 \<le> status)"

text \<open>The request body that \<open>createSingleRecord\<close> fills in for one target.\<close>

definition addInput :: "EfficientIPAPI \<Rightarrow> Endpoint \<Rightarrow> string \<Rightarrow> DnsRrAddInput" where
  "addInput e ep target =
     \<lparr>ServerName = dnsName e, ViewName = dnsView e, RrName = DNSName ep,
      RrType = RecordType ep, RrTtl = word_of_int (RecordTTL ep), RrValue1 = target\<rparr>"

definition createSingleRecord ::
  "EfficientIPAPI \<Rightarrow> Endpoint \<Rightarrow> string \<Rightarrow> trace \<Rightarrow> error option \<times> trace" where
  "createSingleRecord e ep target tr =
     (let call = DnsRrAdd (addInput e ep target);
          r = client e tr call;
          tr' = tr @ [(call, r)]
      in case r of
           TransportError msg \<Rightarrow> (Some (CreateRequestFailed (RecordType ep) (DNSName ep) msg), tr')
         | StatusCode status \<Rightarrow>
             if 400 \<le> status then (Some (CreateStatus status (DNSName ep)), tr')
             else (None, tr'))"

definition deleteSingleRecord ::
  "EfficientIPAPI \<Rightarrow> Endpoint \<Rightarrow> string \<Rightarrow> trace \<Rightarrow> error option \<times> trace" where
  "deleteSingleRecord e ep target tr =
     (let call = DnsRrDelete (DNSName ep) (RecordType ep) target;
          r = client e tr call;
          tr' = tr @ [(call, r)]
      in case r of
           TransportError msg \<Rightarrow> (Some (DeleteRequestFailed (RecordType ep) (DNSName ep) msg), tr')
         | StatusCode status \<Rightarrow>
             if 400 \<le> status then (Some (DeleteStatus status (DNSName ep)), tr')
             else (None, tr'))"

text \<open>The loop of \<open>RecordAdd\<close> over the targets: the first error ends it.\<close>

fun RecordAdd_loop ::
  "EfficientIPAPI \<Rightarrow> Endpoint \<Rightarrow> string list \<Rightarrow> trace \<Rightarrow> error option \<times> trace" where
  "RecordAdd_loop e ep [] tr = (None, tr)"
| "RecordAdd_loop e ep (target # targets) tr =
     (case createSingleRecord e ep target tr of
        (Some err, tr') \<Rightarrow> (Some err, tr')
      | (None, tr') \<Rightarrow> RecordAdd_loop e ep targets tr')"

definition RecordAdd :: "EfficientIPAPI \<Rightarrow> Endpoint \<Rightarrow> trace \<Rightarrow> error option \<times> trace" where
  "RecordAdd e ep tr =
     (if length (Targets ep) = 0 then (Some (NoTargetsProvided (DNSName ep)), tr)
      else RecordAdd_loop e ep (Targets ep) tr)"

fun RecordDelete_loop ::
  "EfficientIPAPI \<Rightarrow> Endpoint \<Rightarrow> string list \<Rightarrow> trace \<Rightarrow> error option \<times> trace" where
  "RecordDelete_loop e ep [] tr = (None, tr)"
| "RecordDelete_loop e ep (target # targets) tr =
     (case deleteSingleRecord e ep target tr of
        (Some err, tr') \<Rightarrow> (Some err, tr')
      | (None, tr') \<Rightarrow> RecordDelete_loop e ep targets tr')"

definition RecordDelete :: "EfficientIPAPI \<Rightarrow> Endpoint \<Rightarrow> trace \<Rightarrow> error option \<times> trace" where
  "RecordDelete e ep tr =
     (if length (Targets ep) = 0 then (Some (NoTargetsProvided (DNSName ep)), tr)
      else RecordDelete_loop e ep (Targets ep) tr)"

section \<open>The provider: applying a change set\<close>

text \<open>In dry-run mode both functions only log; logging is not modelled.\<close>

definition DeleteChanges :: "Provider \<Rightarrow> Endpoint \<Rightarrow> trace \<Rightarrow> error option \<times> trace" where
  "DeleteChanges p ep tr =
     (if DryRun (config p) then (None, tr)
      else (case RecordDelete (api p) ep tr of
              (Some err, tr') \<Rightarrow> (Some (FailedToDeleteRecord err), tr')
            | (None, tr') \<Rightarrow> (None, tr')))"

definition CreateChanges :: "Provider \<Rightarrow> Endpoint \<Rightarrow> trace \<Rightarrow> error option \<times> trace" where
  "CreateChanges p ep tr =
     (if DryRun (config p) then (None, tr)
      else (case RecordAdd (api p) ep tr of
              (Some err, tr') \<Rightarrow> (Some (FailedToCreateRecord err), tr')
            | (None, tr') \<Rightarrow> (None, tr')))"

fun processDeletions :: "Provider \<Rightarrow> Endpoint list \<Rightarrow> trace \<Rightarrow> error option \<times> trace" where
  "processDeletions p [] tr = (None, tr)"
| "processDeletions p (ep # endpoints) tr =
     (case DeleteChanges p ep tr of
        (Some err, tr') \<Rightarrow> (Some (FailedToDeleteEndpoint (DNSName ep) err), tr')
      | (None, tr') \<Rightarrow> processDeletions p endpoints tr')"

fun processCreations :: "Provider \<Rightarrow> Endpoint list \<Rightarrow> trace \<Rightarrow> error option \<times> trace" where
  "processCreations p [] tr = (None, tr)"
| "processCreations p (ep # endpoints) tr =
     (case CreateChanges p ep tr of
        (Some err, tr') \<Rightarrow> (Some (FailedToCreateEndpoint (DNSName ep) err), tr')
      | (None, tr') \<Rightarrow> processCreations p endpoints tr')"

text \<open>The change set is a pointer: \<open>None\<close> is the nil change set.\<close>

definition ApplyChanges :: "Provider \<Rightarrow> Changes option \<Rightarrow> trace \<Rightarrow> error option \<times> trace" where
  "ApplyChanges p changes tr =
     (case changes of
        None \<Rightarrow> (None, tr)
      | Some ch \<Rightarrow>
          (case processDeletions p (Delete ch) tr of
             (Some err, tr1) \<Rightarrow> (Some err, tr1)
           | (None, tr1) \<Rightarrow>
               (case processDeletions p (UpdateOld ch) tr1 of
                  (Some err, tr2) \<Rightarrow> (Some err, tr2)
                | (None, tr2) \<Rightarrow>
                    (case processCreations p (Create ch) tr2 of
                       (Some err, tr3) \<Rightarrow> (Some err, tr3)
                     | (None, tr3) \<Rightarrow> processCreations p (UpdateNew ch) tr3))))"

text \<open>
  The specification's reading of \<open>ApplyChanges\<close>, for comparison with the code: the four
  sets form one ordered list of operations, Delete and UpdateOld as deletions, then
  Create and UpdateNew as creations, run one after the other until the first error.
\<close>

datatype Operation = Deletion Endpoint | Creation Endpoint

definition spec_pipeline :: "Changes \<Rightarrow> Operation list" where
  "spec_pipeline ch =
     map Deletion (Delete ch) @ map Deletion (UpdateOld ch) @
     map Creation (Create ch) @ map Creation (UpdateNew ch)"

definition spec_run_operation :: "Provider \<Rightarrow> Operation \<Rightarrow> trace \<Rightarrow> error option \<times> trace" where
  "spec_run_operation p oper tr =
     (case oper of
        Deletion ep \<Rightarrow>
          (case DeleteChanges p ep tr of
             (Some err, tr') \<Rightarrow> (Some (FailedToDeleteEndpoint (DNSName ep) err), tr')
           | (None, tr') \<Rightarrow> (None, tr'))
      | Creation ep \<Rightarrow>
          (case CreateChanges p ep tr of
             (Some err, tr') \<Rightarrow> (Some (FailedToCreateEndpoint (DNSName ep) err), tr')
           | (None, tr') \<Rightarrow> (None, tr')))"

fun spec_run_pipeline :: "Provider \<Rightarrow> Operation list \<Rightarrow> trace \<Rightarrow> error option \<times> trace" where
  "spec_run_pipeline p [] tr = (None, tr)"
| "spec_run_pipeline p (oper # opers) tr =
     (case spec_run_operation p oper tr of
        (Some err, tr') \<Rightarrow> (Some err, tr')
      | (None, tr') \<Rightarrow> spec_run_pipeline p opers tr')"

text \<open>
  The calls an operation stands for when nothing fails: one per target, in target order,
  and none at all in dry-run mode.
\<close>

definition spec_planned_calls :: "Provider \<Rightarrow> Operation \<Rightarrow> DnsCall list" where
  "spec_planned_calls p oper =
     (if DryRun (config p) then []
      else (case oper of
              Deletion ep \<Rightarrow> map (\<lambda>target. DnsRrDelete (DNSName ep) (RecordType ep) target) (Targets ep)
            | Creation ep \<Rightarrow> map (\<lambda>target. DnsRrAdd (addInput (api p) ep target)) (Targets ep)))"

section \<open>The provider: adjusting endpoints\<close>

definition providerSpecificEfficientipPtrRecord :: string where
  "providerSpecificEfficientipPtrRecord = ''efficientip-ptr-record-exists''"

text \<open>
  The search loop of \<open>addPTRRecordTracking\<close>: the first annotation of the tracking name
  gets the value \<^verbatim>\<open>"true"\<close> and ends the loop; the flag says whether one was found.
\<close>

fun addPTRRecordTracking_loop ::
  "ProviderSpecificProperty list \<Rightarrow> ProviderSpecificProperty list \<times> bool" where
  "addPTRRecordTracking_loop [] = ([], False)"
| "addPTRRecordTracking_loop (ps # rest) =
     (if Name ps = providerSpecificEfficientipPtrRecord
      then (ps\<lparr>Value := ''true''\<rparr> # rest, True)
      else (case addPTRRecordTracking_loop rest of (rest', found) \<Rightarrow> (ps # rest', found)))"

definition addPTRRecordTracking :: "Endpoint \<Rightarrow> Endpoint" where
  "addPTRRecordTracking ep =
     (case addPTRRecordTracking_loop (ProviderSpecific ep) of
        (ps, found) \<Rightarrow>
          (if \<not> found
           then WithProviderSpecific (ep\<lparr>ProviderSpecific := ps\<rparr>)
                  providerSpecificEfficientipPtrRecord ''true''
           else ep\<lparr>ProviderSpecific := ps\<rparr>))"

text \<open>
  The loop of \<open>AdjustEndpoints\<close>. The code appends the pointer to \<open>adjusted\<close> before it
  adds the tracking annotation through the same pointer; the model appends the endpoint
  as it stands at the end of the iteration.
\<close>

fun AdjustEndpoints_loop :: "Provider \<Rightarrow> Endpoint list \<Rightarrow> Endpoint list \<Rightarrow> Endpoint list" where
  "AdjustEndpoints_loop p [] adjusted = adjusted"
| "AdjustEndpoints_loop p (ep # endpoints) adjusted =
     (let ep1 = (if \<not> IsConfigured (RecordTTL ep) then ep\<lparr>RecordTTL := DefaultTTL (config p)\<rparr>
                 else ep)
      in if \<not> CreatePTR (config p) then AdjustEndpoints_loop p endpoints (adjusted @ [ep1])
         else if RecordType ep1 = RecordTypeA
              then AdjustEndpoints_loop p endpoints (adjusted @ [addPTRRecordTracking ep1])
              else AdjustEndpoints_loop p endpoints (adjusted @ [ep1]))"

definition AdjustEndpoints :: "Provider \<Rightarrow> Endpoint list \<Rightarrow> error + Endpoint list" where
  "AdjustEndpoints p endpoints =
     (if length endpoints = 0 then Inr endpoints
      else Inr (AdjustEndpoints_loop p endpoints []))"

text \<open>How many annotations of an endpoint carry the tracking name.\<close>

definition tracking_entries :: "Endpoint \<Rightarrow> nat" where
  "tracking_entries ep =
     length (filter (\<lambda>ps. Name ps = providerSpecificEfficientipPtrRecord) (ProviderSpecific ep))"

section \<open>The appliance client: rows to endpoints\<close>

text \<open>
  \<open>hostRecords\<close> is a Go map from a key to an endpoint pointer. The model keeps it as an
  association list with one entry per key. Go leaves the order in which \<^verbatim>\<open>range\<close> visits
  a map open, so the visiting order is a parameter of the model: a function that returns
  the entries in the order visited. \<open>range_visits_each_entry_once\<close> says what Go does
  promise.
\<close>

type_synonym hostRecords = "(string \<times> Endpoint) list"

definition range_visits_each_entry_once :: "(hostRecords \<Rightarrow> hostRecords) \<Rightarrow> bool" where
  "range_visits_each_entry_once rng \<longleftrightarrow> (\<forall>m. mset (rng m) = mset m)"

text \<open>
  \<open>handleARecord\<close> appends the row's value to the targets of the endpoint the map holds
  under the row's key, through the pointer, or stores a new endpoint under a key not yet
  present. In the model the entry is replaced where it stands, or added at the end.
\<close>

definition handleARecord :: "DataInnerDnsRrData \<Rightarrow> int \<Rightarrow> hostRecords \<Rightarrow> hostRecords" where
  "handleARecord rr ttl hostRecords =
     (let key = rr_full_name rr @ '':A''
      in case map_of hostRecords key of
           Some existing \<Rightarrow>
             AList.update key (existing\<lparr>Targets := Targets existing @ [rr_all_value rr]\<rparr>)
               hostRecords
         | None \<Rightarrow>
             AList.update key
               (NewEndpointWithTTL (rr_full_name rr) RecordTypeA ttl (rr_all_value rr))
               hostRecords)"

definition createStandardEndpoint :: "DataInnerDnsRrData \<Rightarrow> int \<Rightarrow> Endpoint" where
  "createStandardEndpoint rr ttl =
     NewEndpointWithTTL (rr_full_name rr) (rr_type rr) ttl (rr_all_value rr)"

text \<open>The first lines of the loop body: the row's TTL, or 300 when it does not parse.\<close>

definition row_ttl :: "DataInnerDnsRrData \<Rightarrow> int" where
  "row_ttl rr = (case Atoi (rr_ttl rr) of Inl err \<Rightarrow> 300 | Inr ttl \<Rightarrow> ttl)"

fun convertRecordsToEndpoints_loop ::
  "DataInnerDnsRrData list \<Rightarrow> Endpoint list \<Rightarrow> hostRecords \<Rightarrow> Endpoint list \<times> hostRecords" where
  "convertRecordsToEndpoints_loop [] endpoints hostRecords = (endpoints, hostRecords)"
| "convertRecordsToEndpoints_loop (rr # records) endpoints hostRecords =
     (let ttl = row_ttl rr
      in if rr_type rr = ''A''
         then convertRecordsToEndpoints_loop records endpoints (handleARecord rr ttl hostRecords)
         else if rr_type rr = ''TXT'' \<or> rr_type rr = ''CNAME''
              then convertRecordsToEndpoints_loop records
                     (endpoints @ [createStandardEndpoint rr ttl]) hostRecords
              else convertRecordsToEndpoints_loop records endpoints hostRecords)"

definition convertRecordsToEndpoints ::
  "(hostRecords \<Rightarrow> hostRecords) \<Rightarrow> DataInnerDnsRrData list \<Rightarrow> error + Endpoint list" where
  "convertRecordsToEndpoints rng records =
     (case convertRecordsToEndpoints_loop records [] [] of
        (endpoints, hostRecords) \<Rightarrow> Inr (endpoints @ map snd (rng hostRecords)))"

section \<open>Auxiliary definitions for stating the properties\<close>

text \<open>The error \<open>createSingleRecord\<close> builds from a failed result.\<close>

definition create_error :: "Endpoint \<Rightarrow> ApiResult \<Rightarrow> error" where
  "create_error ep r =
     (case r of
        TransportError msg \<Rightarrow> CreateRequestFailed (RecordType ep) (DNSName ep) msg
      | StatusCode status \<Rightarrow> CreateStatus status (DNSName ep))"

text \<open>The error \<open>deleteSingleRecord\<close> builds from a failed result.\<close>

definition delete_error :: "Endpoint \<Rightarrow> ApiResult \<Rightarrow> error" where
  "delete_error ep r =
     (case r of
        TransportError msg \<Rightarrow> DeleteRequestFailed (RecordType ep) (DNSName ep) msg
      | StatusCode status \<Rightarrow> DeleteStatus status (DNSName ep))"

text \<open>What one iteration of the loop of \<open>AdjustEndpoints\<close> makes of an endpoint.\<close>

definition adjusted_endpoint :: "Provider \<Rightarrow> Endpoint \<Rightarrow> Endpoint" where
  "adjusted_endpoint p ep =
     (let ep1 = (if \<not> IsConfigured (RecordTTL ep) then ep\<lparr>RecordTTL := DefaultTTL (config p)\<rparr>
                 else ep)
      in if CreatePTR (config p) \<and> RecordType ep1 = RecordTypeA then addPTRRecordTracking ep1
         else ep1)"

text \<open>The rows the loop turns into an endpoint of their own.\<close>

definition is_standard :: "DataInnerDnsRrData \<Rightarrow> bool" where
  "is_standard rr \<longleftrightarrow> rr_type rr = ''TXT'' \<or> rr_type rr = ''CNAME''"

text \<open>What one "A" row does to \<open>hostRecords\<close> in the loop.\<close>

definition hostRecords_step :: "hostRecords \<Rightarrow> DataInnerDnsRrData \<Rightarrow> hostRecords" where
  "hostRecords_step hostRecords rr = handleARecord rr (row_ttl rr) hostRecords"

text \<open>
  A row with the string \<^verbatim>\<open>"300"\<close> in place of a TTL string that does not parse: what
  "substituting the default" means for the row.
\<close>

definition with_default_ttl :: "DataInnerDnsRrData \<Rightarrow> DataInnerDnsRrData" where
  "with_default_ttl rr = (case Atoi (rr_ttl rr) of Inl err \<Rightarrow> rr\<lparr>rr_ttl := ''300''\<rparr> | Inr ttl \<Rightarrow> rr)"

text \<open>
  Concrete inputs for the examples: an appliance that accepts every call, one that
  rejects the second call it receives, and a provider and endpoints around them.
\<close>

definition example_appliance_ok :: "trace \<Rightarrow> DnsCall \<Rightarrow> ApiResult" where
  "example_appliance_ok tr call = StatusCode 200"

definition example_appliance_second_fails :: "trace \<Rightarrow> DnsCall \<Rightarrow> ApiResult" where
  "example_appliance_second_fails tr call = (if length tr = 1 then StatusCode 500 else StatusCode 200)"

definition example_api :: "(trace \<Rightarrow> DnsCall \<Rightarrow> ApiResult) \<Rightarrow> EfficientIPAPI" where
  "example_api appliance = \<lparr>client = appliance, dnsName = ''smart.example'', dnsView = ''''\<rparr>"

definition example_provider :: "(trace \<Rightarrow> DnsCall \<Rightarrow> ApiResult) \<Rightarrow> bool \<Rightarrow> Provider" where
  "example_provider appliance dry =
     \<lparr>api = example_api appliance,
      config = \<lparr>DnsSmart = ''smart.example'', DnsView = '''', DryRun = dry, CreatePTR = True,
                DefaultTTL = 300\<rparr>\<rparr>"

definition example_endpoint :: "string \<Rightarrow> string list \<Rightarrow> Endpoint" where
  "example_endpoint name targets =
     \<lparr>DNSName = name, Targets = targets, RecordType = ''A'', RecordTTL = 300, Labels = [],
      ProviderSpecific = []\<rparr>"

definition example_row :: "string \<Rightarrow> string \<Rightarrow> string \<Rightarrow> string \<Rightarrow> DataInnerDnsRrData" where
  "example_row name type ttl val =
     \<lparr>rr_ttl = ttl, rr_full_name = name, rr_type = type, rr_all_value = val\<rparr>"

section \<open>Dry-run mode\<close>

text \<open>
  Claim C9. With \<open>DryRun\<close> set in the configuration, \<open>CreateChanges\<close> and
  \<open>DeleteChanges\<close> return no error for every endpoint and leave the appliance's log as it
  was, whatever the client would answer: no call is issued. This holds for every endpoint,
  an endpoint with an empty targets list included, so the no-targets error of
  \<open>RecordAdd\<close> and \<open>RecordDelete\<close> does not arise in dry-run mode.
\<close>

theorem DryRun_is_silent_noop:
  assumes "DryRun (config p)"
  shows "CreateChanges p ep tr = (None, tr) \<and> DeleteChanges p ep tr = (None, tr)"
  using assms by (simp add: CreateChanges_def DeleteChanges_def)

text \<open>
  The theorem at a dry-run provider whose appliance would reject the second call, and an
  endpoint without targets.
\<close>

theorem DryRun_is_silent_noop_witness:
  "DryRun (config (example_provider example_appliance_second_fails True)) \<and>
   Targets (example_endpoint ''a.co'' []) = [] \<and>
   CreateChanges (example_provider example_appliance_second_fails True) (example_endpoint ''a.co'' []) [] = (None, []) \<and>
   DeleteChanges (example_provider example_appliance_second_fails True) (example_endpoint ''a.co'' []) [] = (None, [])"
proof -
  have h: "DryRun (config (example_provider example_appliance_second_fails True))"
    by (simp add: example_provider_def)
  show ?thesis
    using h DryRun_is_silent_noop[OF h, of "example_endpoint ''a.co'' []" "[]"]
    by (simp add: example_endpoint_def)
qed

text \<open>
  For comparison: without \<open>DryRun\<close> an endpoint with an empty targets list is refused
  with the no-targets error and no call; and in dry-run mode a whole change set is applied
  without a call.
\<close>

lemma empty_targets_without_DryRun:
  assumes "\<not> DryRun (config p)" and "Targets ep = []"
  shows "CreateChanges p ep tr = (Some (FailedToCreateRecord (NoTargetsProvided (DNSName ep))), tr) \<and>
         DeleteChanges p ep tr = (Some (FailedToDeleteRecord (NoTargetsProvided (DNSName ep))), tr)"
  using assms by (simp add: CreateChanges_def DeleteChanges_def RecordAdd_def RecordDelete_def)

lemma ApplyChanges_DryRun:
  assumes "DryRun (config p)"
  shows "ApplyChanges p changes tr = (None, tr)"
proof -
  have d: "processDeletions p endpoints t = (None, t)" for endpoints t
    using assms by (induction endpoints) (simp_all add: DeleteChanges_def)
  have c: "processCreations p endpoints t = (None, t)" for endpoints t
    using assms by (induction endpoints) (simp_all add: CreateChanges_def)
  show ?thesis by (simp add: ApplyChanges_def d c split: option.splits)
qed

section \<open>Fan-out: one call per target\<close>

text \<open>
  One call: the log grows by exactly that call and the appliance's answer to it, and the
  call returns an error exactly when the answer is a failure.
\<close>

lemma createSingleRecord_cases:
  "createSingleRecord e ep target tr = (res, tr') \<Longrightarrow>
     tr' = tr @ [(DnsRrAdd (addInput e ep target), client e tr (DnsRrAdd (addInput e ep target)))] \<and>
     (res = None \<longleftrightarrow> \<not> call_failed (client e tr (DnsRrAdd (addInput e ep target)))) \<and>
     (\<forall>err. res = Some err \<longrightarrow> err = create_error ep (client e tr (DnsRrAdd (addInput e ep target))))"
  by (auto simp: createSingleRecord_def Let_def call_failed_def create_error_def split: ApiResult.splits if_splits)

lemma deleteSingleRecord_cases:
  "deleteSingleRecord e ep target tr = (res, tr') \<Longrightarrow>
     tr' = tr @ [(DnsRrDelete (DNSName ep) (RecordType ep) target, client e tr (DnsRrDelete (DNSName ep) (RecordType ep) target))] \<and>
     (res = None \<longleftrightarrow> \<not> call_failed (client e tr (DnsRrDelete (DNSName ep) (RecordType ep) target))) \<and>
     (\<forall>err. res = Some err \<longrightarrow> err = delete_error ep (client e tr (DnsRrDelete (DNSName ep) (RecordType ep) target)))"
  by (auto simp: deleteSingleRecord_def Let_def call_failed_def delete_error_def split: ApiResult.splits if_splits)

text \<open>
  The loop over the targets issues the calls for a front part of the target list, in
  order, each answered by the appliance on the log as it stands then; every call but the
  last succeeded; without an error all targets were called, and an error is the one built
  from the failed last call.
\<close>

lemma RecordAdd_loop_trace:
  "RecordAdd_loop e ep targets tr = (res, tr') \<Longrightarrow>
     \<exists>k new. k \<le> length targets \<and> tr' = tr @ new \<and>
       map fst new = map (\<lambda>target. DnsRrAdd (addInput e ep target)) (take k targets) \<and>
       (\<forall>i<length new. snd (new ! i) = client e (tr @ take i new) (fst (new ! i))) \<and>
       (\<forall>x\<in>set (butlast new). \<not> call_failed (snd x)) \<and>
       (res = None \<longrightarrow> k = length targets \<and> (\<forall>x\<in>set new. \<not> call_failed (snd x))) \<and>
       (\<forall>err. res = Some err \<longrightarrow> new \<noteq> [] \<and> call_failed (snd (last new)) \<and> err = create_error ep (snd (last new)))"
proof (induction targets arbitrary: tr)
  case Nil
  then show ?case by simp
next
  case (Cons t ts)
  let ?c = "DnsRrAdd (addInput e ep t)"
  let ?r = "client e tr ?c"
  obtain r1 tr1 where s: "createSingleRecord e ep t tr = (r1, tr1)" by force
  note c = createSingleRecord_cases[OF s]
  show ?case
  proof (cases r1)
    case None
    with Cons.prems s have "RecordAdd_loop e ep ts tr1 = (res, tr')" by simp
    from Cons.IH[OF this] obtain k new where
      k: "k \<le> length ts" and tr': "tr' = tr1 @ new" and
      calls: "map fst new = map (\<lambda>target. DnsRrAdd (addInput e ep target)) (take k ts)" and
      ans: "\<forall>i<length new. snd (new ! i) = client e (tr1 @ take i new) (fst (new ! i))" and
      bl: "\<forall>x\<in>set (butlast new). \<not> call_failed (snd x)" and
      ok: "res = None \<longrightarrow> k = length ts \<and> (\<forall>x\<in>set new. \<not> call_failed (snd x))" and
      err: "\<forall>err. res = Some err \<longrightarrow> new \<noteq> [] \<and> call_failed (snd (last new)) \<and> err = create_error ep (snd (last new))"
      by blast
    have okr: "\<not> call_failed ?r" using c None by simp
    have tr1: "tr1 = tr @ [(?c, ?r)]" using c by simp
    let ?new = "(?c, ?r) # new"
    have "Suc k \<le> length (t # ts)" using k by simp
    moreover have "tr' = tr @ ?new" using tr' tr1 by simp
    moreover have "map fst ?new = map (\<lambda>target. DnsRrAdd (addInput e ep target)) (take (Suc k) (t # ts))"
      using calls by simp
    moreover have "\<forall>i<length ?new. snd (?new ! i) = client e (tr @ take i ?new) (fst (?new ! i))"
    proof (intro allI impI)
      fix i assume "i < length ?new"
      then show "snd (?new ! i) = client e (tr @ take i ?new) (fst (?new ! i))"
        using ans tr1 by (cases i) auto
    qed
    moreover have "\<forall>x\<in>set (butlast ?new). \<not> call_failed (snd x)"
      using bl okr by (cases new) auto
    moreover have "res = None \<longrightarrow> Suc k = length (t # ts) \<and> (\<forall>x\<in>set ?new. \<not> call_failed (snd x))"
      using ok okr by auto
    moreover have "\<forall>err. res = Some err \<longrightarrow> ?new \<noteq> [] \<and> call_failed (snd (last ?new)) \<and> err = create_error ep (snd (last ?new))"
      using err by auto
    ultimately show ?thesis by blast
  next
    case (Some err1)
    with Cons.prems s have res: "res = Some err1" and tr': "tr' = tr1" by simp_all
    have f: "call_failed ?r" and e1: "err1 = create_error ep ?r" and tr1: "tr1 = tr @ [(?c, ?r)]"
      using c Some by auto
    let ?new = "[(?c, ?r)]"
    have "Suc 0 \<le> length (t # ts)" by simp
    moreover have "tr' = tr @ ?new" using tr' tr1 by simp
    moreover have "map fst ?new = map (\<lambda>target. DnsRrAdd (addInput e ep target)) (take (Suc 0) (t # ts))" by simp
    moreover have "\<forall>i<length ?new. snd (?new ! i) = client e (tr @ take i ?new) (fst (?new ! i))" by simp
    moreover have "\<forall>x\<in>set (butlast ?new). \<not> call_failed (snd x)" by simp
    moreover have "res = None \<longrightarrow> Suc 0 = length (t # ts) \<and> (\<forall>x\<in>set ?new. \<not> call_failed (snd x))" using res by simp
    moreover have "\<forall>err. res = Some err \<longrightarrow> ?new \<noteq> [] \<and> call_failed (snd (last ?new)) \<and> err = create_error ep (snd (last ?new))"
      using res f e1 by simp
    ultimately show ?thesis by blast
  qed
qed

lemma RecordDelete_loop_trace:
  "RecordDelete_loop e ep targets tr = (res, tr') \<Longrightarrow>
     \<exists>k new. k \<le> length targets \<and> tr' = tr @ new \<and>
       map fst new = map (\<lambda>target. DnsRrDelete (DNSName ep) (RecordType ep) target) (take k targets) \<and>
       (\<forall>i<length new. snd (new ! i) = client e (tr @ take i new) (fst (new ! i))) \<and>
       (\<forall>x\<in>set (butlast new). \<not> call_failed (snd x)) \<and>
       (res = None \<longrightarrow> k = length targets \<and> (\<forall>x\<in>set new. \<not> call_failed (snd x))) \<and>
       (\<forall>err. res = Some err \<longrightarrow> new \<noteq> [] \<and> call_failed (snd (last new)) \<and> err = delete_error ep (snd (last new)))"
proof (induction targets arbitrary: tr)
  case Nil
  then show ?case by simp
next
  case (Cons t ts)
  let ?c = "DnsRrDelete (DNSName ep) (RecordType ep) t"
  let ?r = "client e tr ?c"
  obtain r1 tr1 where s: "deleteSingleRecord e ep t tr = (r1, tr1)" by force
  note c = deleteSingleRecord_cases[OF s]
  show ?case
  proof (cases r1)
    case None
    with Cons.prems s have "RecordDelete_loop e ep ts tr1 = (res, tr')" by simp
    from Cons.IH[OF this] obtain k new where
      k: "k \<le> length ts" and tr': "tr' = tr1 @ new" and
      calls: "map fst new = map (\<lambda>target. DnsRrDelete (DNSName ep) (RecordType ep) target) (take k ts)" and
      ans: "\<forall>i<length new. snd (new ! i) = client e (tr1 @ take i new) (fst (new ! i))" and
      bl: "\<forall>x\<in>set (butlast new). \<not> call_failed (snd x)" and
      ok: "res = None \<longrightarrow> k = length ts \<and> (\<forall>x\<in>set new. \<not> call_failed (snd x))" and
      err: "\<forall>err. res = Some err \<longrightarrow> new \<noteq> [] \<and> call_failed (snd (last new)) \<and> err = delete_error ep (snd (last new))"
      by blast
    have okr: "\<not> call_failed ?r" using c None by simp
    have tr1: "tr1 = tr @ [(?c, ?r)]" using c by simp
    let ?new = "(?c, ?r) # new"
    have "Suc k \<le> length (t # ts)" using k by simp
    moreover have "tr' = tr @ ?new" using tr' tr1 by simp
    moreover have "map fst ?new = map (\<lambda>target. DnsRrDelete (DNSName ep) (RecordType ep) target) (take (Suc k) (t # ts))"
      using calls by simp
    moreover have "\<forall>i<length ?new. snd (?new ! i) = client e (tr @ take i ?new) (fst (?new ! i))"
    proof (intro allI impI)
      fix i assume "i < length ?new"
      then show "snd (?new ! i) = client e (tr @ take i ?new) (fst (?new ! i))"
        using ans tr1 by (cases i) auto
    qed
    moreover have "\<forall>x\<in>set (butlast ?new). \<not> call_failed (snd x)"
      using bl okr by (cases new) auto
    moreover have "res = None \<longrightarrow> Suc k = length (t # ts) \<and> (\<forall>x\<in>set ?new. \<not> call_failed (snd x))"
      using ok okr by auto
    moreover have "\<forall>err. res = Some err \<longrightarrow> ?new \<noteq> [] \<and> call_failed (snd (last ?new)) \<and> err = delete_error ep (snd (last ?new))"
      using err by auto
    ultimately show ?thesis by blast
  next
    case (Some err1)
    with Cons.prems s have res: "res = Some err1" and tr': "tr' = tr1" by simp_all
    have f: "call_failed ?r" and e1: "err1 = delete_error ep ?r" and tr1: "tr1 = tr @ [(?c, ?r)]"
      using c Some by auto
    let ?new = "[(?c, ?r)]"
    have "Suc 0 \<le> length (t # ts)" by simp
    moreover have "tr' = tr @ ?new" using tr' tr1 by simp
    moreover have "map fst ?new = map (\<lambda>target. DnsRrDelete (DNSName ep) (RecordType ep) target) (take (Suc 0) (t # ts))" by simp
    moreover have "\<forall>i<length ?new. snd (?new ! i) = client e (tr @ take i ?new) (fst (?new ! i))" by simp
    moreover have "\<forall>x\<in>set (butlast ?new). \<not> call_failed (snd x)" by simp
    moreover have "res = None \<longrightarrow> Suc 0 = length (t # ts) \<and> (\<forall>x\<in>set ?new. \<not> call_failed (snd x))" using res by simp
    moreover have "\<forall>err. res = Some err \<longrightarrow> ?new \<noteq> [] \<and> call_failed (snd (last ?new)) \<and> err = delete_error ep (snd (last ?new))"
      using res f e1 by simp
    ultimately show ?thesis by blast
  qed
qed


text \<open>
  Claim C3. \<open>RecordAdd\<close> on an endpoint with an empty targets list returns the
  no-targets error (the specification's \<^verbatim>\<open>InvalidInput\<close>) and leaves the log unchanged: no
  call is issued. On an endpoint with \<open>N > 0\<close> targets it issues create calls for the
  first \<open>k\<close> targets, one call per target in target order, \<open>1 \<le> k \<le> N\<close>, each answered by the
  appliance; all calls but the last succeeded. If it returns no error then \<open>k = N\<close> and
  every call succeeded; if it returns an error then the last call issued is the first
  failing one, the error is the one built from that call's result, and no call was issued
  for the targets after it.
\<close>

theorem RecordAdd_one_call_per_target:
  assumes "RecordAdd e ep tr = (res, tr')"
  shows "(Targets ep = [] \<longrightarrow> res = Some (NoTargetsProvided (DNSName ep)) \<and> tr' = tr) \<and>
         (Targets ep \<noteq> [] \<longrightarrow>
            (\<exists>k new. 1 \<le> k \<and> k \<le> length (Targets ep) \<and> tr' = tr @ new \<and>
               map fst new = map (\<lambda>target. DnsRrAdd (addInput e ep target)) (take k (Targets ep)) \<and>
               (\<forall>i<length new. snd (new ! i) = client e (tr @ take i new) (fst (new ! i))) \<and>
               (\<forall>x\<in>set (butlast new). \<not> call_failed (snd x)) \<and>
               (res = None \<longrightarrow> k = length (Targets ep) \<and> (\<forall>x\<in>set new. \<not> call_failed (snd x))) \<and>
               (\<forall>err. res = Some err \<longrightarrow>
                  call_failed (snd (last new)) \<and> err = create_error ep (snd (last new)))))"
proof (cases "Targets ep = []")
  case True
  with assms show ?thesis by (simp add: RecordAdd_def)
next
  case False
  with assms have "RecordAdd_loop e ep (Targets ep) tr = (res, tr')"
    by (simp add: RecordAdd_def)
  from RecordAdd_loop_trace[OF this] obtain k new where
    k: "k \<le> length (Targets ep)" and tr': "tr' = tr @ new" and
    calls: "map fst new = map (\<lambda>target. DnsRrAdd (addInput e ep target)) (take k (Targets ep))" and
    ans: "\<forall>i<length new. snd (new ! i) = client e (tr @ take i new) (fst (new ! i))" and
    bl: "\<forall>x\<in>set (butlast new). \<not> call_failed (snd x)" and
    ok: "res = None \<longrightarrow> k = length (Targets ep) \<and> (\<forall>x\<in>set new. \<not> call_failed (snd x))" and
    err: "\<forall>err. res = Some err \<longrightarrow> new \<noteq> [] \<and> call_failed (snd (last new)) \<and> err = create_error ep (snd (last new))"
    by blast
  have "length new = min k (length (Targets ep))"
    using arg_cong[OF calls, of length] by simp
  then have len: "length new = k" using k by simp
  have "1 \<le> k"
  proof (cases res)
    case None
    then show ?thesis using ok False by (cases "Targets ep") auto
  next
    case (Some a)
    then have "new \<noteq> []" using err by simp
    then show ?thesis using len by (cases new) auto
  qed
  with False k tr' calls ans bl ok err show ?thesis by blast
qed


text \<open>
  The theorem at an endpoint with three targets and an appliance that rejects the second
  call: two calls are issued, the third target is never requested.
\<close>

theorem RecordAdd_one_call_per_target_witness:
  "Targets (example_endpoint ''a.co'' [''1.1.1.1'', ''2.2.2.2'', ''3.3.3.3'']) \<noteq> [] \<and>
   RecordAdd (example_api example_appliance_second_fails)
     (example_endpoint ''a.co'' [''1.1.1.1'', ''2.2.2.2'', ''3.3.3.3'']) [] =
     (Some (CreateStatus 500 ''a.co''),
      [(DnsRrAdd (addInput (example_api example_appliance_second_fails)
           (example_endpoint ''a.co'' [''1.1.1.1'', ''2.2.2.2'', ''3.3.3.3'']) ''1.1.1.1''), StatusCode 200),
       (DnsRrAdd (addInput (example_api example_appliance_second_fails)
           (example_endpoint ''a.co'' [''1.1.1.1'', ''2.2.2.2'', ''3.3.3.3'']) ''2.2.2.2''), StatusCode 500)]) \<and>
   call_failed (StatusCode 500) \<and>
   CreateStatus 500 ''a.co'' =
     create_error (example_endpoint ''a.co'' [''1.1.1.1'', ''2.2.2.2'', ''3.3.3.3'']) (StatusCode 500)"
proof -
  let ?e = "example_api example_appliance_second_fails"
  let ?ep = "example_endpoint ''a.co'' [''1.1.1.1'', ''2.2.2.2'', ''3.3.3.3'']"
  let ?tr = "[(DnsRrAdd (addInput ?e ?ep ''1.1.1.1''), StatusCode 200),
       (DnsRrAdd (addInput ?e ?ep ''2.2.2.2''), StatusCode 500)]"
  have h: "RecordAdd ?e ?ep [] = (Some (CreateStatus 500 ''a.co''), ?tr)"
    by (simp add: RecordAdd_def createSingleRecord_def example_api_def
          example_appliance_second_fails_def example_endpoint_def)
  have ne: "Targets ?ep \<noteq> []" by (simp add: example_endpoint_def)
  from RecordAdd_one_call_per_target[OF h] ne obtain new where
    "?tr = [] @ new" "call_failed (snd (last new))"
    "CreateStatus 500 ''a.co'' = create_error ?ep (snd (last new))"
    by blast
  then have "call_failed (StatusCode 500) \<and>
     CreateStatus 500 ''a.co'' = create_error ?ep (StatusCode 500)"
    by auto
  with h ne show ?thesis by blast
qed

section \<open>Applying a change set in a fixed order\<close>

text \<open>
  The code's four calls in a row are one run of the specification's pipeline: running a
  pipeline of two parts is running the first and, if it gave no error, the second.
\<close>

lemma spec_run_pipeline_append:
  "spec_run_pipeline p (xs @ ys) tr =
     (case spec_run_pipeline p xs tr of
        (Some err, tr') \<Rightarrow> (Some err, tr')
      | (None, tr') \<Rightarrow> spec_run_pipeline p ys tr')"
  by (induction xs arbitrary: tr) (auto split: prod.splits option.splits)

lemma processDeletions_pipeline:
  "processDeletions p endpoints tr = spec_run_pipeline p (map Deletion endpoints) tr"
  by (induction endpoints arbitrary: tr)
     (auto simp: spec_run_operation_def split: prod.splits option.splits)

lemma processCreations_pipeline:
  "processCreations p endpoints tr = spec_run_pipeline p (map Creation endpoints) tr"
  by (induction endpoints arbitrary: tr)
     (auto simp: spec_run_operation_def split: prod.splits option.splits)

lemma ApplyChanges_pipeline:
  "ApplyChanges p (Some ch) tr = spec_run_pipeline p (spec_pipeline ch) tr"
  by (simp add: ApplyChanges_def spec_pipeline_def spec_run_pipeline_append
        processDeletions_pipeline processCreations_pipeline
      split: prod.splits option.splits)

text \<open>
  A pipeline that ends in an error ran some front part of its operations without error
  and stopped in the operation that followed: the result and the log are those of that
  operation.
\<close>

lemma spec_run_pipeline_first_failure:
  "spec_run_pipeline p opers tr = (Some err, tr') \<Longrightarrow>
     \<exists>k trk. k < length opers \<and> spec_run_pipeline p (take k opers) tr = (None, trk) \<and>
       spec_run_operation p (opers ! k) trk = (Some err, tr')"
proof (induction opers arbitrary: tr)
  case Nil
  then show ?case by simp
next
  case (Cons a opers)
  obtain r1 tr1 where s: "spec_run_operation p a tr = (r1, tr1)" by force
  show ?case
  proof (cases r1)
    case None
    with Cons.prems s have "spec_run_pipeline p opers tr1 = (Some err, tr')" by simp
    from Cons.IH[OF this] obtain k trk where
      "k < length opers" "spec_run_pipeline p (take k opers) tr1 = (None, trk)"
      "spec_run_operation p (opers ! k) trk = (Some err, tr')" by blast
    then have "Suc k < length (a # opers) \<and>
        spec_run_pipeline p (take (Suc k) (a # opers)) tr = (None, trk) \<and>
        spec_run_operation p ((a # opers) ! Suc k) trk = (Some err, tr')"
      using s None by simp
    then show ?thesis by blast
  next
    case (Some e1)
    with Cons.prems s have "0 < length (a # opers) \<and>
        spec_run_pipeline p (take 0 (a # opers)) tr = (None, tr) \<and>
        spec_run_operation p ((a # opers) ! 0) tr = (Some err, tr')" by simp
    then show ?thesis by blast
  qed
qed

text \<open>
  What an operation and a pipeline add to the log: a front part of the planned calls,
  all of them when there is no error, with every call but the last successful.
\<close>

lemma spec_run_operation_trace:
  assumes "spec_run_operation p oper tr = (res, tr')"
  shows "\<exists>new. tr' = tr @ new \<and> prefix (map fst new) (spec_planned_calls p oper) \<and>
           (\<forall>x\<in>set (butlast new). \<not> call_failed (snd x)) \<and>
           (res = None \<longrightarrow> map fst new = spec_planned_calls p oper \<and>
              (\<forall>x\<in>set new. \<not> call_failed (snd x)))"
proof (cases "DryRun (config p)")
  case True
  with assms have "tr' = tr"
    by (cases oper) (auto simp: spec_run_operation_def DeleteChanges_def CreateChanges_def)
  with True show ?thesis by (simp add: spec_planned_calls_def)
next
  case False
  show ?thesis
  proof (cases oper)
    case (Deletion ep)
    show ?thesis
    proof (cases "Targets ep = []")
      case True
      with assms Deletion False have "tr' = tr"
        by (auto simp: spec_run_operation_def DeleteChanges_def RecordDelete_def)
      with True Deletion False show ?thesis by (simp add: spec_planned_calls_def)
    next
      case ne: False
      obtain r1 where l: "RecordDelete_loop (api p) ep (Targets ep) tr = (r1, tr')"
        and r1: "res = None \<longleftrightarrow> r1 = None"
        using assms Deletion False ne
        by (auto simp: spec_run_operation_def DeleteChanges_def RecordDelete_def
            split: prod.splits option.splits)
      from RecordDelete_loop_trace[OF l] obtain k new where
        k: "k \<le> length (Targets ep)" and tr': "tr' = tr @ new" and
        calls: "map fst new = map (\<lambda>target. DnsRrDelete (DNSName ep) (RecordType ep) target) (take k (Targets ep))" and
        bl: "\<forall>x\<in>set (butlast new). \<not> call_failed (snd x)" and
        ok: "r1 = None \<longrightarrow> k = length (Targets ep) \<and> (\<forall>x\<in>set new. \<not> call_failed (snd x))"
        by blast
      have "prefix (map fst new) (spec_planned_calls p oper)"
        using calls Deletion False by (simp add: spec_planned_calls_def take_map[symmetric] take_is_prefix)
      moreover have "res = None \<longrightarrow> map fst new = spec_planned_calls p oper \<and> (\<forall>x\<in>set new. \<not> call_failed (snd x))"
        using calls ok r1 Deletion False by (simp add: spec_planned_calls_def)
      ultimately show ?thesis using tr' bl by blast
    qed
  next
    case (Creation ep)
    show ?thesis
    proof (cases "Targets ep = []")
      case True
      with assms Creation False have "tr' = tr"
        by (auto simp: spec_run_operation_def CreateChanges_def RecordAdd_def)
      with True Creation False show ?thesis by (simp add: spec_planned_calls_def)
    next
      case ne: False
      obtain r1 where l: "RecordAdd_loop (api p) ep (Targets ep) tr = (r1, tr')"
        and r1: "res = None \<longleftrightarrow> r1 = None"
        using assms Creation False ne
        by (auto simp: spec_run_operation_def CreateChanges_def RecordAdd_def
            split: prod.splits option.splits)
      from RecordAdd_loop_trace[OF l] obtain k new where
        k: "k \<le> length (Targets ep)" and tr': "tr' = tr @ new" and
        calls: "map fst new = map (\<lambda>target. DnsRrAdd (addInput (api p) ep target)) (take k (Targets ep))" and
        bl: "\<forall>x\<in>set (butlast new). \<not> call_failed (snd x)" and
        ok: "r1 = None \<longrightarrow> k = length (Targets ep) \<and> (\<forall>x\<in>set new. \<not> call_failed (snd x))"
        by blast
      have "prefix (map fst new) (spec_planned_calls p oper)"
        using calls Creation False by (simp add: spec_planned_calls_def take_map[symmetric] take_is_prefix)
      moreover have "res = None \<longrightarrow> map fst new = spec_planned_calls p oper \<and> (\<forall>x\<in>set new. \<not> call_failed (snd x))"
        using calls ok r1 Creation False by (simp add: spec_planned_calls_def)
      ultimately show ?thesis using tr' bl by blast
    qed
  qed
qed

lemma spec_run_pipeline_trace:
  "spec_run_pipeline p opers tr = (res, tr') \<Longrightarrow>
     \<exists>new. tr' = tr @ new \<and>
       prefix (map fst new) (concat (map (spec_planned_calls p) opers)) \<and>
       (\<forall>x\<in>set (butlast new). \<not> call_failed (snd x)) \<and>
       (res = None \<longrightarrow> map fst new = concat (map (spec_planned_calls p) opers) \<and>
          (\<forall>x\<in>set new. \<not> call_failed (snd x)))"
proof (induction opers arbitrary: tr)
  case Nil
  then show ?case by simp
next
  case (Cons a opers)
  obtain r1 tr1 where s: "spec_run_operation p a tr = (r1, tr1)" by force
  from spec_run_operation_trace[OF s] obtain new1 where
    t1: "tr1 = tr @ new1" and p1: "prefix (map fst new1) (spec_planned_calls p a)" and
    b1: "\<forall>x\<in>set (butlast new1). \<not> call_failed (snd x)" and
    o1: "r1 = None \<longrightarrow> map fst new1 = spec_planned_calls p a \<and> (\<forall>x\<in>set new1. \<not> call_failed (snd x))"
    by blast
  show ?case
  proof (cases r1)
    case None
    with Cons.prems s have "spec_run_pipeline p opers tr1 = (res, tr')" by simp
    from Cons.IH[OF this] obtain new2 where
      t2: "tr' = tr1 @ new2" and
      p2: "prefix (map fst new2) (concat (map (spec_planned_calls p) opers))" and
      b2: "\<forall>x\<in>set (butlast new2). \<not> call_failed (snd x)" and
      o2: "res = None \<longrightarrow> map fst new2 = concat (map (spec_planned_calls p) opers) \<and>
          (\<forall>x\<in>set new2. \<not> call_failed (snd x))"
      by blast
    have m1: "map fst new1 = spec_planned_calls p a" and a1: "\<forall>x\<in>set new1. \<not> call_failed (snd x)"
      using o1 None by simp_all
    have "tr' = tr @ (new1 @ new2)" using t1 t2 by simp
    moreover have "prefix (map fst (new1 @ new2)) (concat (map (spec_planned_calls p) (a # opers)))"
      using m1 p2 by simp
    moreover have "\<forall>x\<in>set (butlast (new1 @ new2)). \<not> call_failed (snd x)"
      using a1 b2 by (auto simp: butlast_append dest: in_set_butlastD)
    moreover have "res = None \<longrightarrow> map fst (new1 @ new2) = concat (map (spec_planned_calls p) (a # opers)) \<and>
          (\<forall>x\<in>set (new1 @ new2). \<not> call_failed (snd x))"
      using m1 a1 o2 by auto
    ultimately show ?thesis by blast
  next
    case (Some e1)
    with Cons.prems s have "res = Some e1" "tr' = tr1" by simp_all
    moreover have "prefix (map fst new1) (concat (map (spec_planned_calls p) (a # opers)))"
      using p1 by simp
    ultimately show ?thesis using t1 b1 by blast
  qed
qed

text \<open>
  The planned calls of a change set are delete calls followed by create calls, and so is
  every front part of them.
\<close>

lemma planned_calls_deletions:
  "\<forall>c\<in>set (concat (map (spec_planned_calls p) (map Deletion endpoints))).
     \<exists>name type val. c = DnsRrDelete name type val"
  by (auto simp: spec_planned_calls_def)

lemma planned_calls_creations:
  "\<forall>c\<in>set (concat (map (spec_planned_calls p) (map Creation endpoints))).
     \<exists>input. c = DnsRrAdd input"
  by (auto simp: spec_planned_calls_def)

lemma prefix_of_planned_calls:
  assumes "prefix calls (concat (map (spec_planned_calls p) (spec_pipeline ch)))"
  shows "\<exists>dels adds. calls = dels @ adds \<and>
           (\<forall>c\<in>set dels. \<exists>name type val. c = DnsRrDelete name type val) \<and>
           (\<forall>c\<in>set adds. \<exists>input. c = DnsRrAdd input)"
proof -
  let ?D = "concat (map (spec_planned_calls p) (map Deletion (Delete ch @ UpdateOld ch)))"
  let ?A = "concat (map (spec_planned_calls p) (map Creation (Create ch @ UpdateNew ch)))"
  have "prefix calls (?D @ ?A)"
    using assms by (simp add: spec_pipeline_def)
  then consider "prefix calls ?D" | us where "calls = ?D @ us" "prefix us ?A"
    by (auto simp: prefix_append)
  then show ?thesis
  proof cases
    case 1
    then have "\<forall>c\<in>set calls. \<exists>name type val. c = DnsRrDelete name type val"
      using planned_calls_deletions[of p "Delete ch @ UpdateOld ch"] set_mono_prefix by blast
    then have "calls = calls @ [] \<and>
        (\<forall>c\<in>set calls. \<exists>name type val. c = DnsRrDelete name type val) \<and>
        (\<forall>c\<in>set ([] :: DnsCall list). \<exists>input. c = DnsRrAdd input)"
      by simp
    then show ?thesis by blast
  next
    case 2
    then have "\<forall>c\<in>set us. \<exists>input. c = DnsRrAdd input"
      using planned_calls_creations[of p "Create ch @ UpdateNew ch"] set_mono_prefix by blast
    with 2(1) planned_calls_deletions[of p "Delete ch @ UpdateOld ch"] show ?thesis by blast
  qed
qed

text \<open>
  Claim C2. \<open>ApplyChanges\<close> on a change set runs the four sets in the fixed order Delete,
  UpdateOld (as deletions), Create, UpdateNew (as creations): its result and log are
  those of the one ordered pipeline run until the first error. The calls it adds to the
  log are a front part of the planned calls in that order: delete calls first, create
  calls after them, so for \<^verbatim>\<open>{Delete: [X], Create: [Y]}\<close> the delete call for X comes
  strictly before the create call for Y. Every call but the last succeeded, and without
  an error all planned calls were issued. An error is the error of the first failing
  operation, returned with the log as that operation left it: no later operation ran,
  and the calls applied before stay in the log.
\<close>

theorem ApplyChanges_fixed_order:
  assumes "ApplyChanges p (Some ch) tr = (res, tr')"
  shows "spec_run_pipeline p (spec_pipeline ch) tr = (res, tr') \<and>
         (\<exists>new. tr' = tr @ new \<and>
            prefix (map fst new) (concat (map (spec_planned_calls p) (spec_pipeline ch))) \<and>
            (\<exists>dels adds. map fst new = dels @ adds \<and>
               (\<forall>c\<in>set dels. \<exists>name type val. c = DnsRrDelete name type val) \<and>
               (\<forall>c\<in>set adds. \<exists>input. c = DnsRrAdd input)) \<and>
            (\<forall>x\<in>set (butlast new). \<not> call_failed (snd x)) \<and>
            (res = None \<longrightarrow>
               map fst new = concat (map (spec_planned_calls p) (spec_pipeline ch)) \<and>
               (\<forall>x\<in>set new. \<not> call_failed (snd x)))) \<and>
         (\<forall>err. res = Some err \<longrightarrow>
            (\<exists>k trk. k < length (spec_pipeline ch) \<and>
               spec_run_pipeline p (take k (spec_pipeline ch)) tr = (None, trk) \<and>
               spec_run_operation p (spec_pipeline ch ! k) trk = (Some err, tr')))"
proof -
  have run: "spec_run_pipeline p (spec_pipeline ch) tr = (res, tr')"
    using assms by (simp add: ApplyChanges_pipeline)
  from spec_run_pipeline_trace[OF run] obtain new where
    new: "tr' = tr @ new"
      "prefix (map fst new) (concat (map (spec_planned_calls p) (spec_pipeline ch)))"
      "\<forall>x\<in>set (butlast new). \<not> call_failed (snd x)"
      "res = None \<longrightarrow>
         map fst new = concat (map (spec_planned_calls p) (spec_pipeline ch)) \<and>
         (\<forall>x\<in>set new. \<not> call_failed (snd x))"
    by blast
  note blocks = prefix_of_planned_calls[OF new(2)]
  have fail: "\<forall>err. res = Some err \<longrightarrow>
            (\<exists>k trk. k < length (spec_pipeline ch) \<and>
               spec_run_pipeline p (take k (spec_pipeline ch)) tr = (None, trk) \<and>
               spec_run_operation p (spec_pipeline ch ! k) trk = (Some err, tr'))"
    using run spec_run_pipeline_first_failure[of p "spec_pipeline ch" tr _ tr'] by blast
  show ?thesis
    using run new blocks fail by blast
qed

text \<open>
  The theorem at the change set \<^verbatim>\<open>{Delete: [old.co], Create: [new.co]}\<close> and an appliance
  that accepts every call: the log holds the delete call, then the create call.
\<close>

theorem ApplyChanges_fixed_order_witness:
  "ApplyChanges (example_provider example_appliance_ok False)
     (Some \<lparr>Create = [example_endpoint ''new.co'' [''2.2.2.2'']], UpdateOld = [], UpdateNew = [],
            Delete = [example_endpoint ''old.co'' [''1.1.1.1'']]\<rparr>) [] =
     (None,
      [(DnsRrDelete ''old.co'' ''A'' ''1.1.1.1'', StatusCode 200),
       (DnsRrAdd (addInput (example_api example_appliance_ok)
           (example_endpoint ''new.co'' [''2.2.2.2'']) ''2.2.2.2''), StatusCode 200)]) \<and>
   spec_run_pipeline (example_provider example_appliance_ok False)
     (spec_pipeline \<lparr>Create = [example_endpoint ''new.co'' [''2.2.2.2'']], UpdateOld = [],
        UpdateNew = [], Delete = [example_endpoint ''old.co'' [''1.1.1.1'']]\<rparr>) [] =
     (None,
      [(DnsRrDelete ''old.co'' ''A'' ''1.1.1.1'', StatusCode 200),
       (DnsRrAdd (addInput (example_api example_appliance_ok)
           (example_endpoint ''new.co'' [''2.2.2.2'']) ''2.2.2.2''), StatusCode 200)])"
proof -
  let ?p = "example_provider example_appliance_ok False"
  let ?ch = "\<lparr>Create = [example_endpoint ''new.co'' [''2.2.2.2'']], UpdateOld = [],
        UpdateNew = [], Delete = [example_endpoint ''old.co'' [''1.1.1.1'']]\<rparr>"
  let ?tr = "[(DnsRrDelete ''old.co'' ''A'' ''1.1.1.1'', StatusCode 200),
       (DnsRrAdd (addInput (example_api example_appliance_ok)
           (example_endpoint ''new.co'' [''2.2.2.2'']) ''2.2.2.2''), StatusCode 200)]"
  have h: "ApplyChanges ?p (Some ?ch) [] = (None, ?tr)"
    by (simp add: ApplyChanges_def DeleteChanges_def CreateChanges_def RecordDelete_def
          RecordAdd_def deleteSingleRecord_def createSingleRecord_def example_provider_def
          example_api_def example_appliance_ok_def example_endpoint_def)
  from ApplyChanges_fixed_order[OF h]
  have "spec_run_pipeline ?p (spec_pipeline ?ch) [] = (None, ?tr)" by blast
  with h show ?thesis by blast
qed

section \<open>Adjusting endpoints\<close>

text \<open>The loop adjusts every endpoint on its own and keeps the order.\<close>

lemma AdjustEndpoints_loop_map:
  "AdjustEndpoints_loop p endpoints adjusted = adjusted @ map (adjusted_endpoint p) endpoints"
  by (induction endpoints arbitrary: adjusted) (simp_all add: adjusted_endpoint_def Let_def)

lemma AdjustEndpoints_map:
  "AdjustEndpoints p endpoints = Inr (map (adjusted_endpoint p) endpoints)"
  by (simp add: AdjustEndpoints_def AdjustEndpoints_loop_map)

text \<open>
  The search loop: without an annotation of the tracking name nothing changes and the
  flag stays down; otherwise the first such annotation gets the value \<^verbatim>\<open>"true"\<close> where it
  stands.
\<close>

lemma loop_not_found:
  "\<forall>x\<in>set ps. Name x \<noteq> providerSpecificEfficientipPtrRecord \<Longrightarrow>
     addPTRRecordTracking_loop ps = (ps, False)"
  by (induction ps) auto

lemma loop_found:
  "\<exists>x\<in>set ps. Name x = providerSpecificEfficientipPtrRecord \<Longrightarrow>
     \<exists>pre x post. ps = pre @ x # post \<and>
       (\<forall>y\<in>set pre. Name y \<noteq> providerSpecificEfficientipPtrRecord) \<and>
       Name x = providerSpecificEfficientipPtrRecord \<and>
       addPTRRecordTracking_loop ps = (pre @ x\<lparr>Value := ''true''\<rparr> # post, True)"
proof (induction ps)
  case Nil
  then show ?case by simp
next
  case (Cons a ps)
  show ?case
  proof (cases "Name a = providerSpecificEfficientipPtrRecord")
    case True
    then have "a # ps = [] @ a # ps \<and>
       (\<forall>y\<in>set ([] :: ProviderSpecificProperty list). Name y \<noteq> providerSpecificEfficientipPtrRecord) \<and>
       Name a = providerSpecificEfficientipPtrRecord \<and>
       addPTRRecordTracking_loop (a # ps) = ([] @ a\<lparr>Value := ''true''\<rparr> # ps, True)"
      by simp
    then show ?thesis by blast
  next
    case False
    with Cons.prems have "\<exists>x\<in>set ps. Name x = providerSpecificEfficientipPtrRecord" by auto
    from Cons.IH[OF this] obtain pre x post where
      h: "ps = pre @ x # post" "\<forall>y\<in>set pre. Name y \<noteq> providerSpecificEfficientipPtrRecord"
         "Name x = providerSpecificEfficientipPtrRecord"
         "addPTRRecordTracking_loop ps = (pre @ x\<lparr>Value := ''true''\<rparr> # post, True)"
      by blast
    with False have "a # ps = (a # pre) @ x # post \<and>
       (\<forall>y\<in>set (a # pre). Name y \<noteq> providerSpecificEfficientipPtrRecord) \<and>
       Name x = providerSpecificEfficientipPtrRecord \<and>
       addPTRRecordTracking_loop (a # ps) = ((a # pre) @ x\<lparr>Value := ''true''\<rparr> # post, True)"
      by simp
    then show ?thesis by blast
  qed
qed

lemma tracking_entries_zero:
  "tracking_entries ep = 0 \<longleftrightarrow>
     (\<forall>x\<in>set (ProviderSpecific ep). Name x \<noteq> providerSpecificEfficientipPtrRecord)"
  by (auto simp: tracking_entries_def filter_empty_conv)

lemma addPTRRecordTracking_absent:
  assumes "tracking_entries ep = 0"
  shows "addPTRRecordTracking ep =
     ep\<lparr>ProviderSpecific := ProviderSpecific ep @
        [\<lparr>Name = providerSpecificEfficientipPtrRecord, Value = ''true''\<rparr>]\<rparr>"
  using assms loop_not_found[of "ProviderSpecific ep"]
  by (simp add: tracking_entries_zero addPTRRecordTracking_def WithProviderSpecific_def)

lemma addPTRRecordTracking_present:
  assumes "0 < tracking_entries ep"
  shows "\<exists>pre x post. ProviderSpecific ep = pre @ x # post \<and>
       (\<forall>y\<in>set pre. Name y \<noteq> providerSpecificEfficientipPtrRecord) \<and>
       Name x = providerSpecificEfficientipPtrRecord \<and>
       addPTRRecordTracking ep = ep\<lparr>ProviderSpecific := pre @ x\<lparr>Value := ''true''\<rparr> # post\<rparr>"
proof -
  from assms have "\<exists>x\<in>set (ProviderSpecific ep). Name x = providerSpecificEfficientipPtrRecord"
    using tracking_entries_zero[of ep] by auto
  from loop_found[OF this] obtain pre x post where
    h: "ProviderSpecific ep = pre @ x # post"
       "\<forall>y\<in>set pre. Name y \<noteq> providerSpecificEfficientipPtrRecord"
       "Name x = providerSpecificEfficientipPtrRecord"
       "addPTRRecordTracking_loop (ProviderSpecific ep) = (pre @ x\<lparr>Value := ''true''\<rparr> # post, True)"
    by blast
  from h(4) have "addPTRRecordTracking ep = ep\<lparr>ProviderSpecific := pre @ x\<lparr>Value := ''true''\<rparr> # post\<rparr>"
    by (simp add: addPTRRecordTracking_def)
  with h(1,2,3) show ?thesis by blast
qed

text \<open>
  \<open>addPTRRecordTracking\<close> touches the annotations only, leaves as many tracking
  annotations as there were (one if there was none), and changes nothing when repeated.
\<close>

lemma addPTRRecordTracking_frame:
  "DNSName (addPTRRecordTracking ep) = DNSName ep \<and>
   Targets (addPTRRecordTracking ep) = Targets ep \<and>
   RecordType (addPTRRecordTracking ep) = RecordType ep \<and>
   RecordTTL (addPTRRecordTracking ep) = RecordTTL ep \<and>
   Labels (addPTRRecordTracking ep) = Labels ep"
  by (simp add: addPTRRecordTracking_def WithProviderSpecific_def split: prod.splits)

lemma addPTRRecordTracking_count:
  "tracking_entries (addPTRRecordTracking ep) = max 1 (tracking_entries ep)"
proof (cases "tracking_entries ep = 0")
  case True
  then show ?thesis
    using addPTRRecordTracking_absent[OF True]
    by (simp add: tracking_entries_def)
next
  case False
  then have pos: "0 < tracking_entries ep" by simp
  from addPTRRecordTracking_present[OF pos] obtain pre x post where
    "ProviderSpecific ep = pre @ x # post"
    "Name x = providerSpecificEfficientipPtrRecord"
    "addPTRRecordTracking ep = ep\<lparr>ProviderSpecific := pre @ x\<lparr>Value := ''true''\<rparr> # post\<rparr>"
    by blast
  then show ?thesis using pos by (simp add: tracking_entries_def)
qed

lemma addPTRRecordTracking_idem:
  "addPTRRecordTracking (addPTRRecordTracking ep) = addPTRRecordTracking ep"
proof (cases "tracking_entries ep = 0")
  case True
  let ?k = "\<lparr>Name = providerSpecificEfficientipPtrRecord, Value = ''true''\<rparr>"
  have a: "addPTRRecordTracking ep = ep\<lparr>ProviderSpecific := ProviderSpecific ep @ [?k]\<rparr>"
    by (rule addPTRRecordTracking_absent[OF True])
  have none: "\<forall>y\<in>set (ProviderSpecific ep). Name y \<noteq> providerSpecificEfficientipPtrRecord"
    using True by (simp add: tracking_entries_zero)
  have "0 < tracking_entries (addPTRRecordTracking ep)"
    by (simp add: addPTRRecordTracking_count)
  from addPTRRecordTracking_present[OF this] obtain pre x post where
    h: "ProviderSpecific (addPTRRecordTracking ep) = pre @ x # post"
       "\<forall>y\<in>set pre. Name y \<noteq> providerSpecificEfficientipPtrRecord"
       "Name x = providerSpecificEfficientipPtrRecord"
       "addPTRRecordTracking (addPTRRecordTracking ep) =
          (addPTRRecordTracking ep)\<lparr>ProviderSpecific := pre @ x\<lparr>Value := ''true''\<rparr> # post\<rparr>"
    by blast
  have eq: "ProviderSpecific ep @ [?k] = pre @ x # post" using h(1) a by simp
  have "x \<notin> set (ProviderSpecific ep)" using none h(3) by auto
  have "post = []"
  proof (rule ccontr)
    assume "post \<noteq> []"
    then obtain post' l where "post = post' @ [l]" by (metis rev_exhaust)
    with eq have "ProviderSpecific ep = pre @ x # post'" by simp
    with \<open>x \<notin> set (ProviderSpecific ep)\<close> show False by simp
  qed
  with eq have "x = ?k" by simp
  then have "x\<lparr>Value := ''true''\<rparr> = x" by simp
  with h(1,4) show ?thesis by simp
next
  case False
  then have pos: "0 < tracking_entries ep" by simp
  from addPTRRecordTracking_present[OF pos] obtain pre x post where
    h: "ProviderSpecific ep = pre @ x # post"
       "\<forall>y\<in>set pre. Name y \<noteq> providerSpecificEfficientipPtrRecord"
       "Name x = providerSpecificEfficientipPtrRecord"
       "addPTRRecordTracking ep = ep\<lparr>ProviderSpecific := pre @ x\<lparr>Value := ''true''\<rparr> # post\<rparr>"
    by blast
  have "addPTRRecordTracking_loop (pre @ x\<lparr>Value := ''true''\<rparr> # post) =
          (pre @ x\<lparr>Value := ''true''\<rparr> # post, True)"
    using h(2,3) by (induction pre) auto
  with h(4) show ?thesis by (simp add: addPTRRecordTracking_def)
qed

lemma adjusted_endpoint_frame:
  "DNSName (adjusted_endpoint p ep) = DNSName ep \<and>
   Targets (adjusted_endpoint p ep) = Targets ep \<and>
   RecordType (adjusted_endpoint p ep) = RecordType ep \<and>
   Labels (adjusted_endpoint p ep) = Labels ep \<and>
   RecordTTL (adjusted_endpoint p ep) =
     (if IsConfigured (RecordTTL ep) then RecordTTL ep else DefaultTTL (config p))"
  by (simp add: adjusted_endpoint_def Let_def addPTRRecordTracking_frame)

lemma set_same_RecordTTL:
  "RecordTTL ep = ttl \<Longrightarrow> ep\<lparr>RecordTTL := ttl\<rparr> = ep"
  by simp

lemma adjusted_endpoint_idem:
  "adjusted_endpoint p (adjusted_endpoint p ep) = adjusted_endpoint p ep"
proof -
  let ?ep1 = "if \<not> IsConfigured (RecordTTL ep) then ep\<lparr>RecordTTL := DefaultTTL (config p)\<rparr> else ep"
  have ttl1: "(if \<not> IsConfigured (RecordTTL ?ep1) then ?ep1\<lparr>RecordTTL := DefaultTTL (config p)\<rparr>
               else ?ep1) = ?ep1"
    by simp
  show ?thesis
  proof (cases "CreatePTR (config p) \<and> RecordType ep = RecordTypeA")
    case False
    then have a: "adjusted_endpoint p ep = ?ep1"
      by (auto simp: adjusted_endpoint_def Let_def)
    have "adjusted_endpoint p ?ep1 = ?ep1"
      using False ttl1 by (auto simp: adjusted_endpoint_def Let_def)
    with a show ?thesis by simp
  next
    case True
    then have a: "adjusted_endpoint p ep = addPTRRecordTracking ?ep1"
      by (auto simp: adjusted_endpoint_def Let_def)
    let ?ep2 = "addPTRRecordTracking ?ep1"
    have f: "RecordTTL ?ep2 = RecordTTL ?ep1" "RecordType ?ep2 = RecordType ?ep1"
      using addPTRRecordTracking_frame[of ?ep1] by simp_all
    have "(if \<not> IsConfigured (RecordTTL ?ep2) then ?ep2\<lparr>RecordTTL := DefaultTTL (config p)\<rparr>
           else ?ep2) = ?ep2"
    proof (cases "IsConfigured (RecordTTL ?ep2)")
      case True
      then show ?thesis by simp
    next
      case nc: False
      then have "RecordTTL ?ep2 = DefaultTTL (config p)"
        using f(1) by (simp split: if_splits)
      from set_same_RecordTTL[OF this] nc show ?thesis by simp
    qed
    moreover have "RecordType ?ep2 = RecordTypeA" using f(2) True by simp
    ultimately have "adjusted_endpoint p ?ep2 = addPTRRecordTracking ?ep2"
      using True by (simp add: adjusted_endpoint_def Let_def)
    with a show ?thesis by (simp add: addPTRRecordTracking_idem)
  qed
qed

text \<open>
  Claim C7. With PTR tracking enabled, \<open>AdjustEndpoints\<close> treats an endpoint of type "A"
  as follows. If it carries no annotation of the tracking name, exactly one is added, at
  the end, with value \<^verbatim>\<open>"true"\<close>. If it carries one, the first is overwritten with
  \<^verbatim>\<open>"true"\<close> in place: the annotations before and after it stay as they are and none is
  added, so the number of annotations of that name is unchanged, and one stays one.
  Adjusting the result again changes nothing.
\<close>

theorem AdjustEndpoints_ptr_tracking:
  assumes "CreatePTR (config p)" and "i < length endpoints"
    and "RecordType (endpoints ! i) = RecordTypeA"
  shows "\<exists>adjusted. AdjustEndpoints p endpoints = Inr adjusted \<and>
           length adjusted = length endpoints \<and>
           (tracking_entries (endpoints ! i) = 0 \<longrightarrow>
              ProviderSpecific (adjusted ! i) =
                ProviderSpecific (endpoints ! i) @
                [\<lparr>Name = providerSpecificEfficientipPtrRecord, Value = ''true''\<rparr>]) \<and>
           (0 < tracking_entries (endpoints ! i) \<longrightarrow>
              (\<exists>pre x post. ProviderSpecific (endpoints ! i) = pre @ x # post \<and>
                 (\<forall>y\<in>set pre. Name y \<noteq> providerSpecificEfficientipPtrRecord) \<and>
                 Name x = providerSpecificEfficientipPtrRecord \<and>
                 ProviderSpecific (adjusted ! i) = pre @ x\<lparr>Value := ''true''\<rparr> # post)) \<and>
           tracking_entries (adjusted ! i) = max 1 (tracking_entries (endpoints ! i)) \<and>
           AdjustEndpoints p adjusted = Inr adjusted"
proof -
  let ?adj = "map (adjusted_endpoint p) endpoints"
  let ?ep = "endpoints ! i"
  let ?ep1 = "if \<not> IsConfigured (RecordTTL ?ep) then ?ep\<lparr>RecordTTL := DefaultTTL (config p)\<rparr> else ?ep"
  have at_i: "?adj ! i = addPTRRecordTracking ?ep1"
    using assms by (simp add: adjusted_endpoint_def Let_def)
  have ps1: "ProviderSpecific ?ep1 = ProviderSpecific ?ep" by simp
  then have te1: "tracking_entries ?ep1 = tracking_entries ?ep"
    by (simp add: tracking_entries_def)
  have absent: "tracking_entries ?ep = 0 \<longrightarrow>
      ProviderSpecific (?adj ! i) =
        ProviderSpecific ?ep @ [\<lparr>Name = providerSpecificEfficientipPtrRecord, Value = ''true''\<rparr>]"
  proof
    assume "tracking_entries ?ep = 0"
    then have "tracking_entries ?ep1 = 0" using te1 by simp
    from addPTRRecordTracking_absent[OF this] show
      "ProviderSpecific (?adj ! i) =
        ProviderSpecific ?ep @ [\<lparr>Name = providerSpecificEfficientipPtrRecord, Value = ''true''\<rparr>]"
      using at_i ps1 by simp
  qed
  have present: "0 < tracking_entries ?ep \<longrightarrow>
      (\<exists>pre x post. ProviderSpecific ?ep = pre @ x # post \<and>
         (\<forall>y\<in>set pre. Name y \<noteq> providerSpecificEfficientipPtrRecord) \<and>
         Name x = providerSpecificEfficientipPtrRecord \<and>
         ProviderSpecific (?adj ! i) = pre @ x\<lparr>Value := ''true''\<rparr> # post)"
  proof
    assume "0 < tracking_entries ?ep"
    then have "0 < tracking_entries ?ep1" using te1 by simp
    from addPTRRecordTracking_present[OF this] obtain pre x post where
      h: "ProviderSpecific ?ep1 = pre @ x # post"
         "\<forall>y\<in>set pre. Name y \<noteq> providerSpecificEfficientipPtrRecord"
         "Name x = providerSpecificEfficientipPtrRecord"
         "addPTRRecordTracking ?ep1 = ?ep1\<lparr>ProviderSpecific := pre @ x\<lparr>Value := ''true''\<rparr> # post\<rparr>"
      by blast
    have "ProviderSpecific (?adj ! i) = pre @ x\<lparr>Value := ''true''\<rparr> # post"
      using at_i h(4) by simp
    with h(1,2,3) ps1 show "\<exists>pre x post. ProviderSpecific ?ep = pre @ x # post \<and>
         (\<forall>y\<in>set pre. Name y \<noteq> providerSpecificEfficientipPtrRecord) \<and>
         Name x = providerSpecificEfficientipPtrRecord \<and>
         ProviderSpecific (?adj ! i) = pre @ x\<lparr>Value := ''true''\<rparr> # post"
      by metis
  qed
  have count: "tracking_entries (?adj ! i) = max 1 (tracking_entries ?ep)"
    using at_i te1 by (simp add: addPTRRecordTracking_count)
  have idem: "AdjustEndpoints p ?adj = Inr ?adj"
    by (simp add: AdjustEndpoints_map adjusted_endpoint_idem)
  have run: "AdjustEndpoints p endpoints = Inr ?adj"
    by (simp add: AdjustEndpoints_map)
  show ?thesis
  proof (intro exI conjI)
    show "AdjustEndpoints p endpoints = Inr ?adj" by (rule run)
    show "length ?adj = length endpoints" by simp
    show "tracking_entries ?ep = 0 \<longrightarrow>
      ProviderSpecific (?adj ! i) =
        ProviderSpecific ?ep @ [\<lparr>Name = providerSpecificEfficientipPtrRecord, Value = ''true''\<rparr>]"
      by (rule absent)
    show "0 < tracking_entries ?ep \<longrightarrow>
      (\<exists>pre x post. ProviderSpecific ?ep = pre @ x # post \<and>
         (\<forall>y\<in>set pre. Name y \<noteq> providerSpecificEfficientipPtrRecord) \<and>
         Name x = providerSpecificEfficientipPtrRecord \<and>
         ProviderSpecific (?adj ! i) = pre @ x\<lparr>Value := ''true''\<rparr> # post)"
      by (rule present)
    show "tracking_entries (?adj ! i) = max 1 (tracking_entries ?ep)" by (rule count)
    show "AdjustEndpoints p ?adj = Inr ?adj" by (rule idem)
  qed
qed

text \<open>
  The theorem at an "A" endpoint whose tracking annotation has the value \<^verbatim>\<open>"false"\<close>:
  the value becomes \<^verbatim>\<open>"true"\<close> and the annotation stays the only one.
\<close>

theorem AdjustEndpoints_ptr_tracking_witness:
  "CreatePTR (config (example_provider example_appliance_ok False)) \<and>
   (0::nat) < length [(example_endpoint ''a.co'' [''1.1.1.1''])
       \<lparr>ProviderSpecific := [\<lparr>Name = providerSpecificEfficientipPtrRecord, Value = ''false''\<rparr>]\<rparr>] \<and>
   RecordType ([(example_endpoint ''a.co'' [''1.1.1.1''])
       \<lparr>ProviderSpecific := [\<lparr>Name = providerSpecificEfficientipPtrRecord, Value = ''false''\<rparr>]\<rparr>] ! 0) =
     RecordTypeA \<and>
   AdjustEndpoints (example_provider example_appliance_ok False)
     [(example_endpoint ''a.co'' [''1.1.1.1''])
       \<lparr>ProviderSpecific := [\<lparr>Name = providerSpecificEfficientipPtrRecord, Value = ''false''\<rparr>]\<rparr>] =
     Inr [(example_endpoint ''a.co'' [''1.1.1.1''])
       \<lparr>ProviderSpecific := [\<lparr>Name = providerSpecificEfficientipPtrRecord, Value = ''true''\<rparr>]\<rparr>] \<and>
   tracking_entries ((example_endpoint ''a.co'' [''1.1.1.1''])
       \<lparr>ProviderSpecific := [\<lparr>Name = providerSpecificEfficientipPtrRecord, Value = ''true''\<rparr>]\<rparr>) = 1"
proof -
  let ?p = "example_provider example_appliance_ok False"
  let ?ep = "(example_endpoint ''a.co'' [''1.1.1.1''])
       \<lparr>ProviderSpecific := [\<lparr>Name = providerSpecificEfficientipPtrRecord, Value = ''false''\<rparr>]\<rparr>"
  let ?ep' = "(example_endpoint ''a.co'' [''1.1.1.1''])
       \<lparr>ProviderSpecific := [\<lparr>Name = providerSpecificEfficientipPtrRecord, Value = ''true''\<rparr>]\<rparr>"
  have h1: "CreatePTR (config ?p)" by (simp add: example_provider_def)
  have h2: "(0::nat) < length [?ep]" by simp
  have h3: "RecordType ([?ep] ! 0) = RecordTypeA"
    by (simp add: example_endpoint_def RecordTypeA_def)
  have run: "AdjustEndpoints ?p [?ep] = Inr [?ep']"
    by (simp add: AdjustEndpoints_def addPTRRecordTracking_def example_provider_def
          example_endpoint_def IsConfigured_def RecordTypeA_def)
  have before: "tracking_entries ([?ep] ! 0) = 1"
    by (simp add: tracking_entries_def)
  from AdjustEndpoints_ptr_tracking[OF h1 h2 h3] run before
  have "tracking_entries ?ep' = 1" by auto
  with h1 h2 h3 run show ?thesis by blast
qed

text \<open>
  Claim C10. For every input list \<open>AdjustEndpoints\<close> returns, without error, a list of
  the same length whose entries are the input's entries in the input's order: position by
  position the DNS name, record type, targets and labels are those of the input, and the
  TTL is the input's TTL when that is configured and the configured default otherwise.
  Only the TTL and the annotations can differ. \<open>ApplyChanges\<close> on the nil change set
  returns no error and leaves the appliance's log unchanged.
\<close>

theorem AdjustEndpoints_frame:
  "(\<exists>adjusted. AdjustEndpoints p endpoints = Inr adjusted \<and>
      length adjusted = length endpoints \<and>
      map DNSName adjusted = map DNSName endpoints \<and>
      map RecordType adjusted = map RecordType endpoints \<and>
      map Targets adjusted = map Targets endpoints \<and>
      map Labels adjusted = map Labels endpoints \<and>
      map RecordTTL adjusted =
        map (\<lambda>ep. if IsConfigured (RecordTTL ep) then RecordTTL ep else DefaultTTL (config p))
          endpoints) \<and>
   ApplyChanges p None tr = (None, tr)"
  by (simp add: AdjustEndpoints_map adjusted_endpoint_frame ApplyChanges_def)

section \<open>Rows to endpoints\<close>

text \<open>
  The loop splits into its two accumulators: \<open>endpoints\<close> receives one endpoint per
  TXT or CNAME row, in row order, and \<open>hostRecords\<close> is folded over the "A" rows.
\<close>

lemma loop_endpoints:
  "fst (convertRecordsToEndpoints_loop records endpoints hostRecords) =
     endpoints @ map (\<lambda>rr. createStandardEndpoint rr (row_ttl rr)) (filter is_standard records)"
  by (induction records arbitrary: endpoints hostRecords) (auto simp: is_standard_def Let_def)

lemma loop_hostRecords:
  "snd (convertRecordsToEndpoints_loop records endpoints hostRecords) =
     foldl hostRecords_step hostRecords (filter (\<lambda>rr. rr_type rr = ''A'') records)"
  by (induction records arbitrary: endpoints hostRecords) (auto simp: hostRecords_step_def Let_def)

lemma convertRecordsToEndpoints_eq:
  "convertRecordsToEndpoints rng records =
     Inr (map (\<lambda>rr. createStandardEndpoint rr (row_ttl rr)) (filter is_standard records) @
          map snd (rng (foldl hostRecords_step [] (filter (\<lambda>rr. rr_type rr = ''A'') records))))"
  using loop_endpoints[of records "[]" "[]"] loop_hostRecords[of records "[]" "[]"]
  by (auto simp: convertRecordsToEndpoints_def split: prod.splits)

text \<open>
  \<open>hostRecords\<close> keeps one entry per key, its keys are those of the "A" rows seen, and the
  entry of a name holds the values of that name's rows in row order with the TTL of the
  first of them.
\<close>

lemma hostRecords_step_keys:
  "fst ` set (hostRecords_step hs rr) = insert (rr_full_name rr @ '':A'') (fst ` set hs)"
  by (simp add: hostRecords_step_def handleARecord_def Let_def dom_update split: option.splits)

lemma hostRecords_step_distinct:
  "distinct (map fst hs) \<Longrightarrow> distinct (map fst (hostRecords_step hs rr))"
  by (simp add: hostRecords_step_def handleARecord_def Let_def distinct_update split: option.splits)

lemma foldl_step_keys:
  "fst ` set (foldl hostRecords_step hs rows) =
     fst ` set hs \<union> (\<lambda>rr. rr_full_name rr @ '':A'') ` set rows"
  by (induction rows arbitrary: hs) (auto simp: hostRecords_step_keys)

lemma foldl_step_distinct:
  "distinct (map fst hs) \<Longrightarrow> distinct (map fst (foldl hostRecords_step hs rows))"
  by (induction rows arbitrary: hs) (auto simp: hostRecords_step_distinct)

lemma hostRecords_step_lookup:
  "map_of (hostRecords_step hs rr) k =
     (if k = rr_full_name rr @ '':A''
      then (case map_of hs k of
              None \<Rightarrow> Some (NewEndpointWithTTL (rr_full_name rr) RecordTypeA (row_ttl rr) (rr_all_value rr))
            | Some existing \<Rightarrow> Some (existing\<lparr>Targets := Targets existing @ [rr_all_value rr]\<rparr>))
      else map_of hs k)"
  by (simp add: hostRecords_step_def handleARecord_def Let_def update_conv' split: option.splits)

lemma foldl_step_lookup:
  "map_of (foldl hostRecords_step [] rows) (name @ '':A'') =
     (case filter (\<lambda>rr. rr_full_name rr = name) rows of
        [] \<Rightarrow> None
      | rr # rest \<Rightarrow>
          Some \<lparr>DNSName = name, Targets = map rr_all_value (rr # rest), RecordType = RecordTypeA,
                RecordTTL = row_ttl rr, Labels = [], ProviderSpecific = []\<rparr>)"
proof (induction rows rule: rev_induct)
  case Nil
  then show ?case by simp
next
  case (snoc x xs)
  show ?case
  proof (cases "rr_full_name x = name")
    case True
    then show ?thesis
      using snoc
      by (auto simp: hostRecords_step_lookup NewEndpointWithTTL_def split: list.splits)
  next
    case False
    then show ?thesis
      using snoc by (simp add: hostRecords_step_lookup)
  qed
qed

lemma set_alist_update:
  "set (AList.update k v al) \<subseteq> insert (k, v) (set al)"
  by (induction al) auto

lemma foldl_step_types:
  "\<forall>e\<in>snd ` set hs. RecordType e = RecordTypeA \<Longrightarrow>
     \<forall>e\<in>snd ` set (foldl hostRecords_step hs rows). RecordType e = RecordTypeA"
proof (induction rows arbitrary: hs)
  case Nil
  then show ?case by simp
next
  case (Cons rr rows)
  have "\<forall>e\<in>snd ` set (hostRecords_step hs rr). RecordType e = RecordTypeA"
  proof
    fix e assume "e \<in> snd ` set (hostRecords_step hs rr)"
    then obtain k where "(k, e) \<in> set (hostRecords_step hs rr)" by force
    then have "(k, e) \<in> set hs \<or>
       (case map_of hs (rr_full_name rr @ '':A'') of
          None \<Rightarrow> e = NewEndpointWithTTL (rr_full_name rr) RecordTypeA (row_ttl rr) (rr_all_value rr)
        | Some existing \<Rightarrow> e = existing\<lparr>Targets := Targets existing @ [rr_all_value rr]\<rparr>)"
      by (auto simp: hostRecords_step_def handleARecord_def Let_def
          dest!: set_alist_update[THEN subsetD] split: option.splits)
    then show "RecordType e = RecordTypeA"
      using Cons.prems
      by (force simp: NewEndpointWithTTL_def split: option.splits dest: map_of_SomeD)
  qed
  from Cons.IH[OF this] show ?case by simp
qed

text \<open>What follows from \<^verbatim>\<open>range\<close> visiting every entry exactly once.\<close>

lemma range_set:
  "range_visits_each_entry_once rng \<Longrightarrow> set (rng m) = set m"
  unfolding range_visits_each_entry_once_def by (metis set_mset_mset)

lemma range_length:
  "range_visits_each_entry_once rng \<Longrightarrow> length (rng m) = length m"
  unfolding range_visits_each_entry_once_def by (metis size_mset)

lemma range_singleton:
  "range_visits_each_entry_once rng \<Longrightarrow> rng [x] = [x]"
  unfolding range_visits_each_entry_once_def by (metis mset_single_iff_right mset.simps(1) mset.simps(2) add_mset_eq_single)

lemma range_id: "range_visits_each_entry_once (\<lambda>m. m)"
  by (simp add: range_visits_each_entry_once_def)

lemma singleton_alist:
  assumes "distinct (map fst al)" and "fst ` set al = {k}" and "map_of al k = Some v"
  shows "al = [(k, v)]"
proof -
  have "length al = card (set (map fst al))"
    using assms(1) by (metis distinct_card length_map)
  also have "\<dots> = 1" using assms(2) by simp
  finally obtain x where al: "al = [x]"
    by (cases al) auto
  with assms(2,3) show ?thesis by (cases x) auto
qed

lemma foldl_step_key_of_entry:
  "\<forall>(k, e)\<in>set hs. k = DNSName e @ '':A'' \<Longrightarrow>
     \<forall>(k, e)\<in>set (foldl hostRecords_step hs rows). k = DNSName e @ '':A''"
proof (induction rows arbitrary: hs)
  case Nil
  then show ?case by simp
next
  case (Cons rr rows)
  have "\<forall>(k, e)\<in>set (hostRecords_step hs rr). k = DNSName e @ '':A''"
  proof (clarify)
    fix k e assume in_step: "(k, e) \<in> set (hostRecords_step hs rr)"
    then have "(k, e) \<in> set hs \<or>
       (k = rr_full_name rr @ '':A'' \<and>
        (case map_of hs (rr_full_name rr @ '':A'') of
           None \<Rightarrow> e = NewEndpointWithTTL (rr_full_name rr) RecordTypeA (row_ttl rr) (rr_all_value rr)
         | Some existing \<Rightarrow> e = existing\<lparr>Targets := Targets existing @ [rr_all_value rr]\<rparr>))"
      by (auto simp: hostRecords_step_def handleARecord_def Let_def
          dest!: set_alist_update[THEN subsetD] split: option.splits)
    then show "k = DNSName e @ '':A''"
      using Cons.prems
      by (force simp: NewEndpointWithTTL_def split: option.splits dest: map_of_SomeD)
  qed
  from Cons.IH[OF this] show ?case by simp
qed

lemma standard_endpoint_types:
  "\<forall>e\<in>set (map (\<lambda>rr. createStandardEndpoint rr (row_ttl rr)) (filter is_standard rows)).
     RecordType e = ''TXT'' \<or> RecordType e = ''CNAME''"
  by (auto simp: createStandardEndpoint_def NewEndpointWithTTL_def is_standard_def)

lemma host_endpoint_types:
  assumes "range_visits_each_entry_once rng"
  shows "\<forall>e\<in>set (map snd (rng (foldl hostRecords_step [] rows))). RecordType e = ''A''"
  using foldl_step_types[of "[]" rows] range_set[OF assms]
  by (simp add: RecordTypeA_def)

text \<open>
  Claim C1. For every non-empty sequence of rows that all have record type "A" and the
  same full name, \<open>convertRecordsToEndpoints\<close> returns exactly one endpoint, for that
  name and of type "A", whose targets are the rows' values in row order: as many targets
  as rows. Its TTL is that of the first row.
\<close>

theorem A_rows_same_name_one_endpoint:
  assumes "range_visits_each_entry_once rng"
    and "\<forall>row\<in>set (rr # rest). rr_type row = ''A'' \<and> rr_full_name row = name"
  shows "convertRecordsToEndpoints rng (rr # rest) =
           Inr [\<lparr>DNSName = name, Targets = map rr_all_value (rr # rest), RecordType = ''A'',
                 RecordTTL = row_ttl rr, Labels = [], ProviderSpecific = []\<rparr>]"
proof -
  let ?rows = "rr # rest"
  let ?hs = "foldl hostRecords_step [] ?rows"
  let ?e = "\<lparr>DNSName = name, Targets = map rr_all_value ?rows, RecordType = ''A'',
             RecordTTL = row_ttl rr, Labels = [], ProviderSpecific = []\<rparr>"
  have fa: "filter (\<lambda>row. rr_type row = ''A'') ?rows = ?rows"
    using assms(2) by (simp add: filter_id_conv)
  have fs: "filter is_standard ?rows = []"
    using assms(2) by (auto simp: is_standard_def filter_empty_conv)
  have fn: "filter (\<lambda>row. rr_full_name row = name) ?rows = ?rows"
    using assms(2) by (simp add: filter_id_conv)
  have look: "map_of ?hs (name @ '':A'') = Some ?e"
    using foldl_step_lookup[of ?rows name] fn by (simp add: RecordTypeA_def)
  have keys: "fst ` set ?hs = {name @ '':A''}"
    using foldl_step_keys[of "[]" ?rows] assms(2) by auto
  have dist: "distinct (map fst ?hs)"
    by (rule foldl_step_distinct) simp
  have "?hs = [(name @ '':A'', ?e)]"
    by (rule singleton_alist[OF dist keys look])
  then have "rng ?hs = [(name @ '':A'', ?e)]"
    using range_singleton[OF assms(1)] by simp
  then show ?thesis
    using fa fs by (simp add: convertRecordsToEndpoints_eq)
qed

text \<open>
  The theorem at the specification's example: two "A" rows for \<^verbatim>\<open>a.co\<close> give one endpoint
  with both values.
\<close>

theorem A_rows_same_name_one_endpoint_witness:
  "range_visits_each_entry_once (\<lambda>m. m) \<and>
   rr_type (example_row ''a.co'' ''A'' ''300'' ''1.1.1.1'') = ''A'' \<and>
   rr_full_name (example_row ''a.co'' ''A'' ''300'' ''1.1.1.1'') = ''a.co'' \<and>
   rr_type (example_row ''a.co'' ''A'' ''300'' ''2.2.2.2'') = ''A'' \<and>
   rr_full_name (example_row ''a.co'' ''A'' ''300'' ''2.2.2.2'') = ''a.co'' \<and>
   convertRecordsToEndpoints (\<lambda>m. m)
     [example_row ''a.co'' ''A'' ''300'' ''1.1.1.1'', example_row ''a.co'' ''A'' ''300'' ''2.2.2.2''] =
     Inr [\<lparr>DNSName = ''a.co'', Targets = [''1.1.1.1'', ''2.2.2.2''], RecordType = ''A'',
           RecordTTL = 300, Labels = [], ProviderSpecific = []\<rparr>]"
proof -
  let ?r1 = "example_row ''a.co'' ''A'' ''300'' ''1.1.1.1''"
  let ?r2 = "example_row ''a.co'' ''A'' ''300'' ''2.2.2.2''"
  have h: "\<forall>row\<in>set (?r1 # [?r2]). rr_type row = ''A'' \<and> rr_full_name row = ''a.co''"
    by (simp add: example_row_def)
  have ttl: "row_ttl ?r1 = 300"
    by (simp add: row_ttl_def Atoi_def example_row_def)
  from A_rows_same_name_one_endpoint[OF range_id h] ttl
  have "convertRecordsToEndpoints (\<lambda>m. m) [?r1, ?r2] =
     Inr [\<lparr>DNSName = ''a.co'', Targets = [''1.1.1.1'', ''2.2.2.2''], RecordType = ''A'',
           RecordTTL = 300, Labels = [], ProviderSpecific = []\<rparr>]"
    by (simp add: example_row_def)
  with range_id h show ?thesis by simp
qed

text \<open>
  Claim C4. The TXT and CNAME endpoints of the output are, in order, exactly one endpoint
  per TXT or CNAME row: the row's name, type and TTL with the row's value as the only
  target. No two such rows are merged, whether or not their names coincide: there are as
  many such endpoints as such rows.
\<close>

theorem standard_rows_one_endpoint_each:
  assumes "range_visits_each_entry_once rng"
  shows "\<exists>out. convertRecordsToEndpoints rng rows = Inr out \<and>
           filter (\<lambda>e. RecordType e = ''TXT'' \<or> RecordType e = ''CNAME'') out =
             map (\<lambda>rr. \<lparr>DNSName = rr_full_name rr, Targets = [rr_all_value rr],
                        RecordType = rr_type rr, RecordTTL = row_ttl rr, Labels = [],
                        ProviderSpecific = []\<rparr>)
               (filter (\<lambda>rr. rr_type rr = ''TXT'' \<or> rr_type rr = ''CNAME'') rows)"
proof -
  let ?stds = "map (\<lambda>rr. createStandardEndpoint rr (row_ttl rr)) (filter is_standard rows)"
  let ?as = "map snd (rng (foldl hostRecords_step [] (filter (\<lambda>rr. rr_type rr = ''A'') rows)))"
  let ?P = "\<lambda>e. RecordType e = ''TXT'' \<or> RecordType e = ''CNAME''"
  have out: "convertRecordsToEndpoints rng rows = Inr (?stds @ ?as)"
    by (rule convertRecordsToEndpoints_eq)
  have "filter ?P ?stds = ?stds"
    using standard_endpoint_types[of rows] by (simp add: filter_id_conv)
  moreover have "filter ?P ?as = []"
    using host_endpoint_types[OF assms] by (auto simp: filter_empty_conv)
  ultimately have "filter ?P (?stds @ ?as) = ?stds" by simp
  moreover have "?stds = map (\<lambda>rr. \<lparr>DNSName = rr_full_name rr, Targets = [rr_all_value rr],
                        RecordType = rr_type rr, RecordTTL = row_ttl rr, Labels = [],
                        ProviderSpecific = []\<rparr>)
               (filter (\<lambda>rr. rr_type rr = ''TXT'' \<or> rr_type rr = ''CNAME'') rows)"
    by (simp add: createStandardEndpoint_def NewEndpointWithTTL_def is_standard_def[abs_def])
  ultimately show ?thesis using out by simp
qed

text \<open>
  The theorem at two TXT rows of the same name around an "A" row: two TXT endpoints come
  out, one per row.
\<close>

theorem standard_rows_one_endpoint_each_witness:
  "range_visits_each_entry_once (\<lambda>m. m) \<and>
   convertRecordsToEndpoints (\<lambda>m. m)
     [example_row ''t.co'' ''TXT'' ''60'' ''v=one'', example_row ''a.co'' ''A'' ''300'' ''1.1.1.1'',
      example_row ''t.co'' ''TXT'' ''60'' ''v=two''] =
     Inr [\<lparr>DNSName = ''t.co'', Targets = [''v=one''], RecordType = ''TXT'', RecordTTL = 60,
            Labels = [], ProviderSpecific = []\<rparr>,
          \<lparr>DNSName = ''t.co'', Targets = [''v=two''], RecordType = ''TXT'', RecordTTL = 60,
            Labels = [], ProviderSpecific = []\<rparr>,
          \<lparr>DNSName = ''a.co'', Targets = [''1.1.1.1''], RecordType = ''A'', RecordTTL = 300,
            Labels = [], ProviderSpecific = []\<rparr>] \<and>
   filter (\<lambda>e. RecordType e = ''TXT'' \<or> RecordType e = ''CNAME'')
     [\<lparr>DNSName = ''t.co'', Targets = [''v=one''], RecordType = ''TXT'', RecordTTL = 60,
            Labels = [], ProviderSpecific = []\<rparr>,
          \<lparr>DNSName = ''t.co'', Targets = [''v=two''], RecordType = ''TXT'', RecordTTL = 60,
            Labels = [], ProviderSpecific = []\<rparr>,
          \<lparr>DNSName = ''a.co'', Targets = [''1.1.1.1''], RecordType = ''A'', RecordTTL = 300,
            Labels = [], ProviderSpecific = []\<rparr>] =
     [\<lparr>DNSName = ''t.co'', Targets = [''v=one''], RecordType = ''TXT'', RecordTTL = 60,
            Labels = [], ProviderSpecific = []\<rparr>,
          \<lparr>DNSName = ''t.co'', Targets = [''v=two''], RecordType = ''TXT'', RecordTTL = 60,
            Labels = [], ProviderSpecific = []\<rparr>]"
proof -
  let ?rows = "[example_row ''t.co'' ''TXT'' ''60'' ''v=one'', example_row ''a.co'' ''A'' ''300'' ''1.1.1.1'',
      example_row ''t.co'' ''TXT'' ''60'' ''v=two'']"
  have run: "convertRecordsToEndpoints (\<lambda>m. m) ?rows =
     Inr [\<lparr>DNSName = ''t.co'', Targets = [''v=one''], RecordType = ''TXT'', RecordTTL = 60,
            Labels = [], ProviderSpecific = []\<rparr>,
          \<lparr>DNSName = ''t.co'', Targets = [''v=two''], RecordType = ''TXT'', RecordTTL = 60,
            Labels = [], ProviderSpecific = []\<rparr>,
          \<lparr>DNSName = ''a.co'', Targets = [''1.1.1.1''], RecordType = ''A'', RecordTTL = 300,
            Labels = [], ProviderSpecific = []\<rparr>]"
    by (simp add: convertRecordsToEndpoints_def handleARecord_def createStandardEndpoint_def
          NewEndpointWithTTL_def RecordTypeA_def row_ttl_def Atoi_def example_row_def)
  from standard_rows_one_endpoint_each[OF range_id, of ?rows] run range_id
  show ?thesis by (simp add: example_row_def row_ttl_def Atoi_def)
qed

section \<open>Rows whose TTL does not parse\<close>

text \<open>
  The loop reads a row through its type, name, value and \<open>row_ttl\<close> only, and none of
  them changes when the default is written into the row.
\<close>

lemma Atoi_300: "Atoi ''300'' = Inr 300"
  by (simp add: Atoi_def)

lemma with_default_ttl_fields:
  "rr_type (with_default_ttl rr) = rr_type rr \<and>
   rr_full_name (with_default_ttl rr) = rr_full_name rr \<and>
   rr_all_value (with_default_ttl rr) = rr_all_value rr \<and>
   row_ttl (with_default_ttl rr) = row_ttl rr"
  by (simp add: with_default_ttl_def row_ttl_def Atoi_300 split: sum.splits)

lemma handleARecord_with_default_ttl:
  "handleARecord (with_default_ttl rr) ttl hostRecords = handleARecord rr ttl hostRecords"
  by (simp add: handleARecord_def with_default_ttl_fields Let_def split: option.splits)

lemma createStandardEndpoint_with_default_ttl:
  "createStandardEndpoint (with_default_ttl rr) ttl = createStandardEndpoint rr ttl"
  by (simp add: createStandardEndpoint_def with_default_ttl_fields)

lemma loop_with_default_ttl:
  "convertRecordsToEndpoints_loop (map with_default_ttl records) endpoints hostRecords =
     convertRecordsToEndpoints_loop records endpoints hostRecords"
  by (induction records arbitrary: endpoints hostRecords)
     (simp_all add: with_default_ttl_fields handleARecord_with_default_ttl
        createStandardEndpoint_with_default_ttl Let_def)

text \<open>
  The endpoint of a name among the output's "A" endpoints: the values of the name's "A"
  rows in row order, with the TTL of the first of them.
\<close>

lemma host_endpoint_of_name:
  assumes "range_visits_each_entry_once rng"
    and "filter (\<lambda>row. rr_type row = ''A'' \<and> rr_full_name row = name) rows = rr # rest"
  shows "\<lparr>DNSName = name, Targets = map rr_all_value (rr # rest), RecordType = ''A'',
          RecordTTL = row_ttl rr, Labels = [], ProviderSpecific = []\<rparr>
         \<in> set (map snd (rng (foldl hostRecords_step [] (filter (\<lambda>row. rr_type row = ''A'') rows))))"
proof -
  let ?hs = "foldl hostRecords_step [] (filter (\<lambda>row. rr_type row = ''A'') rows)"
  let ?e = "\<lparr>DNSName = name, Targets = map rr_all_value (rr # rest), RecordType = ''A'',
          RecordTTL = row_ttl rr, Labels = [], ProviderSpecific = []\<rparr>"
  have "filter (\<lambda>row. rr_full_name row = name) (filter (\<lambda>row. rr_type row = ''A'') rows) = rr # rest"
    using assms(2) by (simp add: conj_commute)
  then have "map_of ?hs (name @ '':A'') = Some ?e"
    using foldl_step_lookup[of "filter (\<lambda>row. rr_type row = ''A'') rows" name]
    by (simp add: RecordTypeA_def)
  then have "(name @ '':A'', ?e) \<in> set ?hs" by (rule map_of_SomeD)
  then have "(name @ '':A'', ?e) \<in> set (rng ?hs)" using range_set[OF assms(1)] by simp
  then show ?thesis by force
qed

text \<open>
  Claim C5, as amended. \<open>convertRecordsToEndpoints\<close> never returns an error, whatever the
  TTL strings are, and the output is the one the same rows give with \<^verbatim>\<open>"300"\<close> written in
  place of every TTL string that does not parse. A TXT or CNAME row with such a TTL gives
  its endpoint with TTL 300, and an "A" row with such a TTL that is the first "A" row of
  its name gives that name's endpoint with TTL 300. An "A" row that joins an endpoint
  opened by an earlier "A" row of its name contributes its value only: every "A" row has
  its value among the targets of its name's endpoint, and that endpoint carries the TTL
  of the first "A" row of the name, parsed or defaulted.
\<close>

theorem unparseable_ttl_defaults_to_300:
  "(\<exists>out. convertRecordsToEndpoints rng rows = Inr out \<and>
      convertRecordsToEndpoints rng (map with_default_ttl rows) = Inr out \<and>
      (\<forall>rr\<in>set rows.
         (\<exists>err. Atoi (rr_ttl rr) = Inl err) \<and> (rr_type rr = ''TXT'' \<or> rr_type rr = ''CNAME'') \<longrightarrow>
         \<lparr>DNSName = rr_full_name rr, Targets = [rr_all_value rr], RecordType = rr_type rr,
          RecordTTL = 300, Labels = [], ProviderSpecific = []\<rparr> \<in> set out) \<and>
      (range_visits_each_entry_once rng \<longrightarrow>
         (\<forall>pre rr post.
            rows = pre @ rr # post \<and> rr_type rr = ''A'' \<and> (\<exists>err. Atoi (rr_ttl rr) = Inl err) \<and>
            (\<forall>row\<in>set pre. rr_type row = ''A'' \<longrightarrow> rr_full_name row \<noteq> rr_full_name rr) \<longrightarrow>
            \<lparr>DNSName = rr_full_name rr,
             Targets = rr_all_value rr #
               map rr_all_value
                 (filter (\<lambda>row. rr_type row = ''A'' \<and> rr_full_name row = rr_full_name rr) post),
             RecordType = ''A'', RecordTTL = 300, Labels = [], ProviderSpecific = []\<rparr> \<in> set out)) \<and>
      (range_visits_each_entry_once rng \<longrightarrow>
         (\<forall>rr\<in>set rows. rr_type rr = ''A'' \<longrightarrow>
            (\<exists>e\<in>set out. DNSName e = rr_full_name rr \<and> RecordType e = ''A'' \<and>
               rr_all_value rr \<in> set (Targets e) \<and>
               RecordTTL e =
                 row_ttl (hd (filter (\<lambda>row. rr_type row = ''A'' \<and>
                                        rr_full_name row = rr_full_name rr) rows))))))"
proof -
  let ?stds = "map (\<lambda>rr. createStandardEndpoint rr (row_ttl rr)) (filter is_standard rows)"
  let ?as = "map snd (rng (foldl hostRecords_step [] (filter (\<lambda>rr. rr_type rr = ''A'') rows)))"
  let ?out = "?stds @ ?as"
  have out: "convertRecordsToEndpoints rng rows = Inr ?out"
    by (rule convertRecordsToEndpoints_eq)
  have sub: "convertRecordsToEndpoints rng (map with_default_ttl rows) = Inr ?out"
    using out by (simp add: convertRecordsToEndpoints_def loop_with_default_ttl)
  have std: "\<forall>rr\<in>set rows.
         (\<exists>err. Atoi (rr_ttl rr) = Inl err) \<and> (rr_type rr = ''TXT'' \<or> rr_type rr = ''CNAME'') \<longrightarrow>
         \<lparr>DNSName = rr_full_name rr, Targets = [rr_all_value rr], RecordType = rr_type rr,
          RecordTTL = 300, Labels = [], ProviderSpecific = []\<rparr> \<in> set ?out"
  proof (intro ballI impI)
    fix rr assume rr: "rr \<in> set rows"
      and h: "(\<exists>err. Atoi (rr_ttl rr) = Inl err) \<and> (rr_type rr = ''TXT'' \<or> rr_type rr = ''CNAME'')"
    from h have ttl: "row_ttl rr = 300" by (auto simp: row_ttl_def)
    from rr h have "rr \<in> set (filter is_standard rows)" by (simp add: is_standard_def)
    then have "createStandardEndpoint rr (row_ttl rr) \<in> set ?stds" by simp
    then show "\<lparr>DNSName = rr_full_name rr, Targets = [rr_all_value rr], RecordType = rr_type rr,
          RecordTTL = 300, Labels = [], ProviderSpecific = []\<rparr> \<in> set ?out"
      using ttl by (simp add: createStandardEndpoint_def NewEndpointWithTTL_def)
  qed
  have first: "range_visits_each_entry_once rng \<longrightarrow>
         (\<forall>pre rr post.
            rows = pre @ rr # post \<and> rr_type rr = ''A'' \<and> (\<exists>err. Atoi (rr_ttl rr) = Inl err) \<and>
            (\<forall>row\<in>set pre. rr_type row = ''A'' \<longrightarrow> rr_full_name row \<noteq> rr_full_name rr) \<longrightarrow>
            \<lparr>DNSName = rr_full_name rr,
             Targets = rr_all_value rr #
               map rr_all_value
                 (filter (\<lambda>row. rr_type row = ''A'' \<and> rr_full_name row = rr_full_name rr) post),
             RecordType = ''A'', RecordTTL = 300, Labels = [], ProviderSpecific = []\<rparr> \<in> set ?out)"
  proof (intro impI allI)
    fix pre rr post
    assume v: "range_visits_each_entry_once rng"
      and h: "rows = pre @ rr # post \<and> rr_type rr = ''A'' \<and> (\<exists>err. Atoi (rr_ttl rr) = Inl err) \<and>
            (\<forall>row\<in>set pre. rr_type row = ''A'' \<longrightarrow> rr_full_name row \<noteq> rr_full_name rr)"
    let ?same = "\<lambda>row. rr_type row = ''A'' \<and> rr_full_name row = rr_full_name rr"
    from h have ttl: "row_ttl rr = 300" by (auto simp: row_ttl_def)
    from h have "filter ?same pre = []" by (auto simp: filter_empty_conv)
    with h have "filter ?same rows = rr # filter ?same post" by simp
    from host_endpoint_of_name[OF v this] ttl
    show "\<lparr>DNSName = rr_full_name rr,
             Targets = rr_all_value rr # map rr_all_value (filter ?same post),
             RecordType = ''A'', RecordTTL = 300, Labels = [], ProviderSpecific = []\<rparr> \<in> set ?out"
      by simp
  qed
  have every: "range_visits_each_entry_once rng \<longrightarrow>
         (\<forall>rr\<in>set rows. rr_type rr = ''A'' \<longrightarrow>
            (\<exists>e\<in>set ?out. DNSName e = rr_full_name rr \<and> RecordType e = ''A'' \<and>
               rr_all_value rr \<in> set (Targets e) \<and>
               RecordTTL e =
                 row_ttl (hd (filter (\<lambda>row. rr_type row = ''A'' \<and>
                                        rr_full_name row = rr_full_name rr) rows))))"
  proof (intro impI ballI)
    fix rr
    assume v: "range_visits_each_entry_once rng" and rr: "rr \<in> set rows" and a: "rr_type rr = ''A''"
    let ?same = "\<lambda>row. rr_type row = ''A'' \<and> rr_full_name row = rr_full_name rr"
    from rr a have mem: "rr \<in> set (filter ?same rows)" by simp
    then obtain r0 rest where f: "filter ?same rows = r0 # rest"
      by (cases "filter ?same rows") auto
    let ?e = "\<lparr>DNSName = rr_full_name rr, Targets = map rr_all_value (r0 # rest), RecordType = ''A'',
          RecordTTL = row_ttl r0, Labels = [], ProviderSpecific = []\<rparr>"
    from host_endpoint_of_name[OF v f] have "?e \<in> set ?out" by simp
    moreover have "rr_all_value rr \<in> set (Targets ?e)"
    proof -
      have "rr \<in> set (r0 # rest)" using mem f by simp
      then have "rr_all_value rr \<in> rr_all_value ` set (r0 # rest)" by (rule imageI)
      then show ?thesis by simp
    qed
    moreover have "RecordTTL ?e = row_ttl (hd (filter ?same rows))"
      using f by simp
    ultimately show "\<exists>e\<in>set ?out. DNSName e = rr_full_name rr \<and> RecordType e = ''A'' \<and>
               rr_all_value rr \<in> set (Targets e) \<and>
               RecordTTL e = row_ttl (hd (filter ?same rows))"
      by (intro bexI[of _ ?e]) simp_all
  qed
  from out sub std first every show ?thesis by blast
qed

text \<open>
  The theorem at a TXT row with TTL \<^verbatim>\<open>"1h"\<close> and an "A" row with an empty TTL: both
  endpoints come out with TTL 300.
\<close>

theorem unparseable_ttl_defaults_to_300_witness:
  "range_visits_each_entry_once (\<lambda>m. m) \<and>
   Atoi (rr_ttl (example_row ''t.co'' ''TXT'' ''1h'' ''v=one'')) = Inl ErrSyntax \<and>
   Atoi (rr_ttl (example_row ''a.co'' ''A'' '''' ''1.1.1.1'')) = Inl ErrSyntax \<and>
   convertRecordsToEndpoints (\<lambda>m. m)
     [example_row ''t.co'' ''TXT'' ''1h'' ''v=one'', example_row ''a.co'' ''A'' '''' ''1.1.1.1''] =
     Inr [\<lparr>DNSName = ''t.co'', Targets = [''v=one''], RecordType = ''TXT'', RecordTTL = 300,
            Labels = [], ProviderSpecific = []\<rparr>,
          \<lparr>DNSName = ''a.co'', Targets = [''1.1.1.1''], RecordType = ''A'', RecordTTL = 300,
            Labels = [], ProviderSpecific = []\<rparr>] \<and>
   \<lparr>DNSName = ''t.co'', Targets = [''v=one''], RecordType = ''TXT'', RecordTTL = 300,
     Labels = [], ProviderSpecific = []\<rparr>
     \<in> set [\<lparr>DNSName = ''t.co'', Targets = [''v=one''], RecordType = ''TXT'', RecordTTL = 300,
            Labels = [], ProviderSpecific = []\<rparr>,
          \<lparr>DNSName = ''a.co'', Targets = [''1.1.1.1''], RecordType = ''A'', RecordTTL = 300,
            Labels = [], ProviderSpecific = []\<rparr>]"
proof -
  let ?t = "example_row ''t.co'' ''TXT'' ''1h'' ''v=one''"
  let ?a = "example_row ''a.co'' ''A'' '''' ''1.1.1.1''"
  let ?out = "[\<lparr>DNSName = ''t.co'', Targets = [''v=one''], RecordType = ''TXT'', RecordTTL = 300,
            Labels = [], ProviderSpecific = []\<rparr>,
          \<lparr>DNSName = ''a.co'', Targets = [''1.1.1.1''], RecordType = ''A'', RecordTTL = 300,
            Labels = [], ProviderSpecific = []\<rparr>]"
  have t: "Atoi (rr_ttl ?t) = Inl ErrSyntax" by (simp add: Atoi_def example_row_def)
  have a: "Atoi (rr_ttl ?a) = Inl ErrSyntax" by (simp add: Atoi_def example_row_def)
  have run: "convertRecordsToEndpoints (\<lambda>m. m) [?t, ?a] = Inr ?out"
    by (simp add: convertRecordsToEndpoints_def handleARecord_def createStandardEndpoint_def
          NewEndpointWithTTL_def RecordTypeA_def row_ttl_def Atoi_def example_row_def)
  from unparseable_ttl_defaults_to_300[of "\<lambda>m. m" "[?t, ?a]"] run obtain out where
    o: "Inr ?out = (Inr out :: error + Endpoint list)" and
    m: "\<forall>rr\<in>set [?t, ?a].
         (\<exists>err. Atoi (rr_ttl rr) = Inl err) \<and> (rr_type rr = ''TXT'' \<or> rr_type rr = ''CNAME'') \<longrightarrow>
         \<lparr>DNSName = rr_full_name rr, Targets = [rr_all_value rr], RecordType = rr_type rr,
          RecordTTL = 300, Labels = [], ProviderSpecific = []\<rparr> \<in> set out"
    by auto
  have "(\<exists>err. Atoi (rr_ttl ?t) = Inl err) \<and> (rr_type ?t = ''TXT'' \<or> rr_type ?t = ''CNAME'')"
    using t by (simp add: example_row_def)
  with m have "\<lparr>DNSName = rr_full_name ?t, Targets = [rr_all_value ?t], RecordType = rr_type ?t,
          RecordTTL = 300, Labels = [], ProviderSpecific = []\<rparr> \<in> set out"
    by simp
  with o have "\<lparr>DNSName = ''t.co'', Targets = [''v=one''], RecordType = ''TXT'', RecordTTL = 300,
     Labels = [], ProviderSpecific = []\<rparr> \<in> set ?out"
    by (simp add: example_row_def)
  with range_id t a run show ?thesis by blast
qed

text \<open>
  Claim C5 as it was stated ("rows with unparseable TTL yield an Endpoint with TTL = 300")
  fails where an "A" row with an unparseable TTL joins an endpoint opened by a row with
  TTL 600: the second row's TTL does not parse, the one endpoint of the output keeps TTL
  600, and under no visiting order of \<^verbatim>\<open>range\<close> does the output hold an endpoint with TTL
  300.
\<close>

theorem unparseable_ttl_counterexample:
  "Atoi (rr_ttl (example_row ''a.co'' ''A'' ''bad'' ''2.2.2.2'')) = Inl ErrSyntax \<and>
   convertRecordsToEndpoints (\<lambda>m. m)
     [example_row ''a.co'' ''A'' ''600'' ''1.1.1.1'', example_row ''a.co'' ''A'' ''bad'' ''2.2.2.2''] =
     Inr [\<lparr>DNSName = ''a.co'', Targets = [''1.1.1.1'', ''2.2.2.2''], RecordType = ''A'',
           RecordTTL = 600, Labels = [], ProviderSpecific = []\<rparr>] \<and>
   \<not> (\<exists>rng out. range_visits_each_entry_once rng \<and>
          convertRecordsToEndpoints rng
            [example_row ''a.co'' ''A'' ''600'' ''1.1.1.1'',
             example_row ''a.co'' ''A'' ''bad'' ''2.2.2.2''] = Inr out \<and>
          (\<exists>e\<in>set out. RecordTTL e = 300))"
proof -
  let ?r1 = "example_row ''a.co'' ''A'' ''600'' ''1.1.1.1''"
  let ?r2 = "example_row ''a.co'' ''A'' ''bad'' ''2.2.2.2''"
  let ?e = "\<lparr>DNSName = ''a.co'', Targets = [''1.1.1.1'', ''2.2.2.2''], RecordType = ''A'',
           RecordTTL = 600, Labels = [], ProviderSpecific = []\<rparr>"
  have bad: "Atoi (rr_ttl ?r2) = Inl ErrSyntax" by (simp add: Atoi_def example_row_def)
  have loop: "convertRecordsToEndpoints_loop [?r1, ?r2] [] [] = ([], [(''a.co:A'', ?e)])"
    by (simp add: handleARecord_def NewEndpointWithTTL_def RecordTypeA_def row_ttl_def Atoi_def
          example_row_def)
  have run: "convertRecordsToEndpoints rng [?r1, ?r2] = Inr [?e]"
    if "range_visits_each_entry_once rng" for rng
    using loop range_singleton[OF that] by (simp add: convertRecordsToEndpoints_def)
  have "\<not> (\<exists>rng out. range_visits_each_entry_once rng \<and>
          convertRecordsToEndpoints rng [?r1, ?r2] = Inr out \<and> (\<exists>e\<in>set out. RecordTTL e = 300))"
  proof
    assume "\<exists>rng out. range_visits_each_entry_once rng \<and>
          convertRecordsToEndpoints rng [?r1, ?r2] = Inr out \<and> (\<exists>e\<in>set out. RecordTTL e = 300)"
    then obtain rng out where v: "range_visits_each_entry_once rng"
      and o: "convertRecordsToEndpoints rng [?r1, ?r2] = Inr out"
      and e: "\<exists>e\<in>set out. RecordTTL e = 300" by blast
    from run[OF v] o have "out = [?e]" by simp
    with e show False by simp
  qed
  with bad run[OF range_id] show ?thesis by blast
qed

section \<open>Rows of other record types\<close>

lemma filter_filter_implied:
  "(\<And>x. P x \<Longrightarrow> Q x) \<Longrightarrow> filter P (filter Q xs) = filter P xs"
  by (induction xs) auto

lemma filter_recognized_A:
  "filter (\<lambda>rr. rr_type rr = ''A'')
     (filter (\<lambda>rr. rr_type rr = ''A'' \<or> rr_type rr = ''TXT'' \<or> rr_type rr = ''CNAME'') rows) =
   filter (\<lambda>rr. rr_type rr = ''A'') rows"
  by (rule filter_filter_implied) (rule disjI1)

lemma filter_recognized_standard:
  "filter is_standard
     (filter (\<lambda>rr. rr_type rr = ''A'' \<or> rr_type rr = ''TXT'' \<or> rr_type rr = ''CNAME'') rows) =
   filter is_standard rows"
  by (rule filter_filter_implied) (unfold is_standard_def, rule disjI2)

lemma hostRecords_length:
  "length (foldl hostRecords_step [] (filter (\<lambda>rr. rr_type rr = ''A'') rows)) =
     card (rr_full_name ` {rr \<in> set rows. rr_type rr = ''A''})"
proof -
  let ?A = "filter (\<lambda>rr. rr_type rr = ''A'') rows"
  let ?hs = "foldl hostRecords_step [] ?A"
  have "distinct (map fst ?hs)" by (rule foldl_step_distinct) simp
  then have "card (set (map fst ?hs)) = length (map fst ?hs)" by (rule distinct_card)
  then have "length ?hs = card (fst ` set ?hs)" by simp
  also have "fst ` set ?hs = (\<lambda>name. name @ '':A'') ` rr_full_name ` set ?A"
    using foldl_step_keys[of "[]" ?A] by (simp add: image_image)
  also have "card \<dots> = card (rr_full_name ` set ?A)"
    by (rule card_image) (simp add: inj_on_def)
  finally show ?thesis by simp
qed

text \<open>
  Claim C6. Rows whose record type is not "A", "TXT" or "CNAME" leave no trace in the
  output: \<open>convertRecordsToEndpoints\<close> returns, without error, exactly what it returns for
  the recognized rows alone. The output's length counts the recognized rows only: one
  endpoint per TXT or CNAME row and one per distinct name among the "A" rows.
\<close>

theorem unrecognized_rows_dropped:
  "convertRecordsToEndpoints rng rows =
     convertRecordsToEndpoints rng
       (filter (\<lambda>rr. rr_type rr = ''A'' \<or> rr_type rr = ''TXT'' \<or> rr_type rr = ''CNAME'') rows) \<and>
   (\<exists>out. convertRecordsToEndpoints rng rows = Inr out \<and>
      (range_visits_each_entry_once rng \<longrightarrow>
         length out =
           length (filter (\<lambda>rr. rr_type rr = ''TXT'' \<or> rr_type rr = ''CNAME'') rows) +
           card (rr_full_name ` {rr \<in> set rows. rr_type rr = ''A''})))"
proof -
  let ?stds = "map (\<lambda>rr. createStandardEndpoint rr (row_ttl rr)) (filter is_standard rows)"
  let ?hs = "foldl hostRecords_step [] (filter (\<lambda>rr. rr_type rr = ''A'') rows)"
  have same: "convertRecordsToEndpoints rng rows =
     convertRecordsToEndpoints rng
       (filter (\<lambda>rr. rr_type rr = ''A'' \<or> rr_type rr = ''TXT'' \<or> rr_type rr = ''CNAME'') rows)"
    by (simp only: convertRecordsToEndpoints_eq filter_recognized_A filter_recognized_standard)
  have out: "convertRecordsToEndpoints rng rows = Inr (?stds @ map snd (rng ?hs))"
    by (rule convertRecordsToEndpoints_eq)
  have len: "range_visits_each_entry_once rng \<longrightarrow>
         length (?stds @ map snd (rng ?hs)) =
           length (filter (\<lambda>rr. rr_type rr = ''TXT'' \<or> rr_type rr = ''CNAME'') rows) +
           card (rr_full_name ` {rr \<in> set rows. rr_type rr = ''A''})"
  proof
    assume v: "range_visits_each_entry_once rng"
    have "length (rng ?hs) = card (rr_full_name ` {rr \<in> set rows. rr_type rr = ''A''})"
      using range_length[OF v] hostRecords_length by simp
    then show "length (?stds @ map snd (rng ?hs)) =
           length (filter (\<lambda>rr. rr_type rr = ''TXT'' \<or> rr_type rr = ''CNAME'') rows) +
           card (rr_full_name ` {rr \<in> set rows. rr_type rr = ''A''})"
      by (simp add: is_standard_def[abs_def])
  qed
  from same out len show ?thesis by blast
qed

text \<open>
  The theorem at an MX row, a TXT row and an AAAA row: the output is that of the TXT row
  alone.
\<close>

theorem unrecognized_rows_dropped_witness:
  "range_visits_each_entry_once (\<lambda>m. m) \<and>
   convertRecordsToEndpoints (\<lambda>m. m)
     [example_row ''m.co'' ''MX'' ''300'' ''10 mail.m.co'', example_row ''t.co'' ''TXT'' ''60'' ''v=one'',
      example_row ''a.co'' ''AAAA'' ''300'' ''::1''] =
     Inr [\<lparr>DNSName = ''t.co'', Targets = [''v=one''], RecordType = ''TXT'', RecordTTL = 60,
            Labels = [], ProviderSpecific = []\<rparr>] \<and>
   convertRecordsToEndpoints (\<lambda>m. m) [example_row ''t.co'' ''TXT'' ''60'' ''v=one''] =
     Inr [\<lparr>DNSName = ''t.co'', Targets = [''v=one''], RecordType = ''TXT'', RecordTTL = 60,
            Labels = [], ProviderSpecific = []\<rparr>]"
proof -
  let ?rows = "[example_row ''m.co'' ''MX'' ''300'' ''10 mail.m.co'',
      example_row ''t.co'' ''TXT'' ''60'' ''v=one'', example_row ''a.co'' ''AAAA'' ''300'' ''::1'']"
  let ?out = "[\<lparr>DNSName = ''t.co'', Targets = [''v=one''], RecordType = ''TXT'', RecordTTL = 60,
            Labels = [], ProviderSpecific = []\<rparr>]"
  have run: "convertRecordsToEndpoints (\<lambda>m. m) ?rows = Inr ?out"
    by (simp add: convertRecordsToEndpoints_def createStandardEndpoint_def
          NewEndpointWithTTL_def row_ttl_def Atoi_def example_row_def)
  have f: "filter (\<lambda>rr. rr_type rr = ''A'' \<or> rr_type rr = ''TXT'' \<or> rr_type rr = ''CNAME'') ?rows =
      [example_row ''t.co'' ''TXT'' ''60'' ''v=one'']"
    by (simp add: example_row_def)
  from unrecognized_rows_dropped[of "\<lambda>m. m" ?rows, THEN conjunct1] run f
  have "convertRecordsToEndpoints (\<lambda>m. m) [example_row ''t.co'' ''TXT'' ''60'' ''v=one''] = Inr ?out"
    by simp
  with range_id run show ?thesis by blast
qed

section \<open>Order of the output\<close>

text \<open>
  Every entry of \<open>hostRecords\<close> sits under the key built from its own name, so every
  order of the accumulated endpoints is the order of some \<^verbatim>\<open>range\<close> over the map.
\<close>

lemma hostRecords_rebuild:
  assumes "\<forall>(k, e)\<in>set hs. k = DNSName e @ '':A''"
  shows "map (\<lambda>e. (DNSName e @ '':A'', e)) (map snd hs) = hs"
  using assms by (induction hs) auto

lemma any_order_of_hostRecords:
  assumes "mset as' = mset (map snd (foldl hostRecords_step [] rows))"
  shows "\<exists>rng'. range_visits_each_entry_once rng' \<and>
           map snd (rng' (foldl hostRecords_step [] rows)) = as'"
proof -
  let ?hs = "foldl hostRecords_step [] rows"
  let ?f = "\<lambda>e. (DNSName e @ '':A'', e)"
  let ?hs' = "map ?f as'"
  let ?rng = "\<lambda>m. if m = ?hs then ?hs' else m"
  have inv: "\<forall>(k, e)\<in>set ?hs. k = DNSName e @ '':A''"
    by (rule foldl_step_key_of_entry) simp
  have "mset ?hs' = image_mset ?f (mset as')" by simp
  also have "\<dots> = image_mset ?f (mset (map snd ?hs))" using assms by simp
  also have "\<dots> = mset (map ?f (map snd ?hs))" by (simp only: mset_map)
  also have "\<dots> = mset ?hs" using hostRecords_rebuild[OF inv] by simp
  finally have perm: "mset ?hs' = mset ?hs" .
  have "range_visits_each_entry_once ?rng"
    using perm by (simp add: range_visits_each_entry_once_def)
  moreover have "map snd (?rng ?hs) = as'" by (simp add: comp_def)
  ultimately show ?thesis by blast
qed

text \<open>
  Claim C8. For every row sequence the output is the TXT and CNAME endpoints, one per TXT
  or CNAME row in row order, followed by the accumulated "A" endpoints: every "A"
  endpoint comes after every TXT or CNAME endpoint. The "A" part holds the accumulated
  endpoints of \<open>hostRecords\<close>, each once, in the order \<^verbatim>\<open>range\<close> visits them; only that
  order is open: every arrangement of the "A" endpoints after the same TXT and CNAME
  endpoints is the output under some visiting order.
\<close>

theorem A_endpoints_after_standard_endpoints:
  assumes "range_visits_each_entry_once rng"
  shows "\<exists>stds as. convertRecordsToEndpoints rng rows = Inr (stds @ as) \<and>
           stds = map (\<lambda>rr. \<lparr>DNSName = rr_full_name rr, Targets = [rr_all_value rr],
                             RecordType = rr_type rr, RecordTTL = row_ttl rr, Labels = [],
                             ProviderSpecific = []\<rparr>)
                    (filter (\<lambda>rr. rr_type rr = ''TXT'' \<or> rr_type rr = ''CNAME'') rows) \<and>
           (\<forall>e\<in>set stds. RecordType e = ''TXT'' \<or> RecordType e = ''CNAME'') \<and>
           (\<forall>e\<in>set as. RecordType e = ''A'') \<and>
           mset as = mset (map snd (snd (convertRecordsToEndpoints_loop rows [] []))) \<and>
           (\<forall>as'. mset as' = mset as \<longrightarrow>
              (\<exists>rng'. range_visits_each_entry_once rng' \<and>
                 convertRecordsToEndpoints rng' rows = Inr (stds @ as')))"
proof -
  let ?std = "\<lambda>rr. \<lparr>DNSName = rr_full_name rr, Targets = [rr_all_value rr],
                             RecordType = rr_type rr, RecordTTL = row_ttl rr, Labels = [],
                             ProviderSpecific = []\<rparr>"
  let ?stds = "map (\<lambda>rr. createStandardEndpoint rr (row_ttl rr)) (filter is_standard rows)"
  let ?hs = "foldl hostRecords_step [] (filter (\<lambda>rr. rr_type rr = ''A'') rows)"
  let ?as = "map snd (rng ?hs)"
  have out: "convertRecordsToEndpoints rng rows = Inr (?stds @ ?as)"
    by (rule convertRecordsToEndpoints_eq)
  have stds: "?stds = map ?std (filter (\<lambda>rr. rr_type rr = ''TXT'' \<or> rr_type rr = ''CNAME'') rows)"
    by (simp add: createStandardEndpoint_def NewEndpointWithTTL_def is_standard_def[abs_def])
  have t1: "\<forall>e\<in>set ?stds. RecordType e = ''TXT'' \<or> RecordType e = ''CNAME''"
    by (rule standard_endpoint_types)
  have t2: "\<forall>e\<in>set ?as. RecordType e = ''A''"
    by (rule host_endpoint_types[OF assms])
  have "mset (rng ?hs) = mset ?hs"
    using assms by (simp add: range_visits_each_entry_once_def)
  then have "image_mset snd (mset (rng ?hs)) = image_mset snd (mset ?hs)"
    by (rule arg_cong)
  then have "mset ?as = mset (map snd ?hs)"
    by (simp only: mset_map)
  then have perm: "mset ?as = mset (map snd (snd (convertRecordsToEndpoints_loop rows [] [])))"
    by (simp add: loop_hostRecords)
  have any: "\<forall>as'. mset as' = mset ?as \<longrightarrow>
              (\<exists>rng'. range_visits_each_entry_once rng' \<and>
                 convertRecordsToEndpoints rng' rows = Inr (?stds @ as'))"
  proof (intro allI impI)
    fix as' assume "mset as' = mset ?as"
    then have "mset as' = mset (map snd ?hs)" using \<open>mset ?as = mset (map snd ?hs)\<close> by simp
    from any_order_of_hostRecords[OF this] obtain rng' where
      "range_visits_each_entry_once rng'" "map snd (rng' ?hs) = as'" by blast
    then have "range_visits_each_entry_once rng' \<and>
        convertRecordsToEndpoints rng' rows = Inr (?stds @ as')"
      by (simp add: convertRecordsToEndpoints_eq)
    then show "\<exists>rng'. range_visits_each_entry_once rng' \<and>
                 convertRecordsToEndpoints rng' rows = Inr (?stds @ as')"
      by (rule exI[of _ rng'])
  qed
  show ?thesis
  proof (intro exI conjI)
    show "convertRecordsToEndpoints rng rows = Inr (?stds @ ?as)" by (rule out)
    show "?stds = map ?std (filter (\<lambda>rr. rr_type rr = ''TXT'' \<or> rr_type rr = ''CNAME'') rows)"
      by (rule stds)
    show "\<forall>e\<in>set ?stds. RecordType e = ''TXT'' \<or> RecordType e = ''CNAME''" by (rule t1)
    show "\<forall>e\<in>set ?as. RecordType e = ''A''" by (rule t2)
    show "mset ?as = mset (map snd (snd (convertRecordsToEndpoints_loop rows [] [])))"
      by (rule perm)
    show "\<forall>as'. mset as' = mset ?as \<longrightarrow>
              (\<exists>rng'. range_visits_each_entry_once rng' \<and>
                 convertRecordsToEndpoints rng' rows = Inr (?stds @ as'))"
      by (rule any)
  qed
qed

text \<open>
  The theorem at a mixed sequence, with \<^verbatim>\<open>range\<close> visiting the map in reverse insertion
  order: TXT and CNAME endpoints in row order first, then the "A" endpoints.
\<close>

theorem A_endpoints_after_standard_endpoints_witness:
  "range_visits_each_entry_once rev \<and>
   convertRecordsToEndpoints rev
     [example_row ''a.co'' ''A'' ''300'' ''1.1.1.1'', example_row ''t.co'' ''TXT'' ''60'' ''v=one'',
      example_row ''b.co'' ''A'' ''300'' ''2.2.2.2'', example_row ''c.co'' ''CNAME'' ''60'' ''a.co''] =
     Inr ([\<lparr>DNSName = ''t.co'', Targets = [''v=one''], RecordType = ''TXT'', RecordTTL = 60,
             Labels = [], ProviderSpecific = []\<rparr>,
           \<lparr>DNSName = ''c.co'', Targets = [''a.co''], RecordType = ''CNAME'', RecordTTL = 60,
             Labels = [], ProviderSpecific = []\<rparr>] @
          [\<lparr>DNSName = ''b.co'', Targets = [''2.2.2.2''], RecordType = ''A'', RecordTTL = 300,
             Labels = [], ProviderSpecific = []\<rparr>,
           \<lparr>DNSName = ''a.co'', Targets = [''1.1.1.1''], RecordType = ''A'', RecordTTL = 300,
             Labels = [], ProviderSpecific = []\<rparr>]) \<and>
   (\<exists>stds as. convertRecordsToEndpoints rev
     [example_row ''a.co'' ''A'' ''300'' ''1.1.1.1'', example_row ''t.co'' ''TXT'' ''60'' ''v=one'',
      example_row ''b.co'' ''A'' ''300'' ''2.2.2.2'', example_row ''c.co'' ''CNAME'' ''60'' ''a.co''] =
       Inr (stds @ as) \<and> length stds = 2)"
proof -
  let ?rows = "[example_row ''a.co'' ''A'' ''300'' ''1.1.1.1'', example_row ''t.co'' ''TXT'' ''60'' ''v=one'',
      example_row ''b.co'' ''A'' ''300'' ''2.2.2.2'', example_row ''c.co'' ''CNAME'' ''60'' ''a.co'']"
  have v: "range_visits_each_entry_once rev"
    by (simp add: range_visits_each_entry_once_def)
  have run: "convertRecordsToEndpoints rev ?rows =
     Inr ([\<lparr>DNSName = ''t.co'', Targets = [''v=one''], RecordType = ''TXT'', RecordTTL = 60,
             Labels = [], ProviderSpecific = []\<rparr>,
           \<lparr>DNSName = ''c.co'', Targets = [''a.co''], RecordType = ''CNAME'', RecordTTL = 60,
             Labels = [], ProviderSpecific = []\<rparr>] @
          [\<lparr>DNSName = ''b.co'', Targets = [''2.2.2.2''], RecordType = ''A'', RecordTTL = 300,
             Labels = [], ProviderSpecific = []\<rparr>,
           \<lparr>DNSName = ''a.co'', Targets = [''1.1.1.1''], RecordType = ''A'', RecordTTL = 300,
             Labels = [], ProviderSpecific = []\<rparr>])"
    by (simp add: convertRecordsToEndpoints_def handleARecord_def createStandardEndpoint_def
          NewEndpointWithTTL_def RecordTypeA_def row_ttl_def Atoi_def example_row_def)
  from A_endpoints_after_standard_endpoints[OF v, of ?rows] obtain stds as where
    o: "convertRecordsToEndpoints rev ?rows = Inr (stds @ as)" and
    s: "stds = map (\<lambda>rr. \<lparr>DNSName = rr_full_name rr, Targets = [rr_all_value rr],
                             RecordType = rr_type rr, RecordTTL = row_ttl rr, Labels = [],
                             ProviderSpecific = []\<rparr>)
                    (filter (\<lambda>rr. rr_type rr = ''TXT'' \<or> rr_type rr = ''CNAME'') ?rows)"
    by (elim exE conjE)
  from s have "length stds = 2" by (simp add: example_row_def)
  with o have "\<exists>stds as. convertRecordsToEndpoints rev ?rows = Inr (stds @ as) \<and> length stds = 2"
    by (intro exI[of _ stds] exI[of _ as] conjI)
  with v run show ?thesis by blast
qed

end
